theory Spec2Isabelle
  imports Main "HOL-Library.AList" "HOL-Library.Word"
begin

unbundle bit_operations_syntax

section \<open>Data model (types.go)\<close>

text \<open>
  \<^verbatim>\<open>type Key interface{}\<close>. A key is used as the key of a Go map, so it is a value with
  equality and a hash; the dynamic type is part of the value (the \<^verbatim>\<open>int\<close> 0 and the string
  "0" are different keys). Two dynamic types are kept apart here: Go's \<^verbatim>\<open>int\<close>, which is the
  type of a loop index, and strings, which stand for every other hashable type.
\<close>

datatype Key = KInt int | KStr string

text \<open>
  A \<^verbatim>\<open>*Rec\<close> is the address of a record object. Record objects live in a memory that is a
  list: the address is the position, and allocation appends. A payload
  (\<^verbatim>\<open>interface{}\<close>) is \<open>None\<close> for \<^verbatim>\<open>nil\<close>.
\<close>

type_synonym addr = nat

record 'p Payload =
  Payload_KeyList :: "Key list"
  Payload_PDataRec :: "'p option"

text \<open>
  \<^verbatim>\<open>sync.Mutex\<close> of go1.14 is \<^verbatim>\<open>struct { state int32; sema uint32 }\<close>; bit 0 of
  \<^verbatim>\<open>state\<close> is the locked bit, which \<^verbatim>\<open>RecUnlock\<close> reads by reflection. The model keeps
  \<^verbatim>\<open>state\<close>. \<^verbatim>\<open>Lock\<close> on a held mutex does not return (\<open>None\<close> here), \<^verbatim>\<open>Unlock\<close> on a
  mutex that is not held is a fatal error (\<open>None\<close> here).
\<close>

type_synonym Mutex = "32 word"

definition mutexLocked :: "32 word" where
  "mutexLocked = 1"

definition mutex_held :: "Mutex \<Rightarrow> bool" where
  "mutex_held state = (state AND mutexLocked = mutexLocked)"

definition Mutex_Lock :: "Mutex \<Rightarrow> Mutex option" where
  "Mutex_Lock state =
     (if state AND mutexLocked = mutexLocked then None else Some (state OR mutexLocked))"

definition Mutex_Unlock :: "Mutex \<Rightarrow> Mutex option" where
  "Mutex_Unlock state =
     (if state AND mutexLocked = mutexLocked then Some (state - mutexLocked) else None)"

text \<open>
  \<^verbatim>\<open>sync.RWMutex\<close>, by who holds it: one writer, or any number of readers.
\<close>

record RWMutex =
  writer :: bool
  readers :: nat

definition RWMutex_Lock :: "RWMutex \<Rightarrow> RWMutex option" where
  "RWMutex_Lock l = (if writer l \<or> readers l > 0 then None else Some (l\<lparr>writer := True\<rparr>))"

definition RWMutex_Unlock :: "RWMutex \<Rightarrow> RWMutex option" where
  "RWMutex_Unlock l = (if writer l then Some (l\<lparr>writer := False\<rparr>) else None)"

definition RWMutex_RLock :: "RWMutex \<Rightarrow> RWMutex option" where
  "RWMutex_RLock l = (if writer l then None else Some (l\<lparr>readers := readers l + 1\<rparr>))"

definition RWMutex_RUnlock :: "RWMutex \<Rightarrow> RWMutex option" where
  "RWMutex_RUnlock l = (if readers l > 0 then Some (l\<lparr>readers := readers l - 1\<rparr>) else None)"

text \<open>
  \<^verbatim>\<open>Rec\<close>. \<open>KeyList\<close> is the slice as a value: the key slices that callers and the loader
  pass are taken not to share memory with one another and not to be written to later.
  \<open>pRecLock\<close> is \<open>None\<close> for a \<^verbatim>\<open>nil\<close> pointer; every record has its own mutex, so the
  mutex is kept in the record. \<open>pUnlockRecLock\<close> is never assigned.
\<close>

record 'p Rec =
  KeyList :: "Key list"
  PDataRec :: "'p option"
  isActive :: bool
  refcnt :: nat
  pRecLock :: "Mutex option"
  pUnlockRecLock :: "Mutex option"

text \<open>
  The argument of a \<^verbatim>\<open>RecHandlerFunc\<close> is an \<^verbatim>\<open>interface{}\<close>: \<^verbatim>\<open>Iterate\<close> passes a payload,
  \<^verbatim>\<open>AuxIterate\<close> passes the \<^verbatim>\<open>*Rec\<close>.
\<close>

datatype 'p HandlerArg = ArgPayload "'p option" | ArgRec addr

text \<open>
  \<^verbatim>\<open>DataCache\<close>. \<open>cache\<close> is the Go map, as an association list (its order is the order in
  which \<^verbatim>\<open>range\<close> visits the entries, which Go leaves open). \<open>cnt\<close> is a Go \<^verbatim>\<open>int\<close> of 64
  bits; no run reaches \<open>2 ^ 63\<close> records, so it is an unbounded integer here.
  Two fields are not fields of the Go struct: \<open>recs\<close> is the memory of the record objects
  that the entries of \<open>cache\<close> and the handles of callers point into, and \<open>calls\<close> logs the
  arguments of every call of a record handler, oldest first. The callbacks are taken to
  be functions of their arguments that touch neither the store nor the records.
\<close>

record 'p DataCache =
  cacheLock :: RWMutex
  cache :: "(Key \<times> addr) list"
  loadfn :: "(unit \<Rightarrow> bool \<times> 'p Payload list) option"
  reciteratefn :: "('p HandlerArg \<Rightarrow> bool) option"
  cnt :: int
  singletonFlag :: bool
  recs :: "'p Rec list"
  calls :: "'p HandlerArg list"

text \<open>The messages of the errors the package returns, one constructor each.\<close>

datatype error =
    NullDatacacheOrPayload  \<comment> \<open>"NULL datacache or payload."\<close>
  | NullDatacache           \<comment> \<open>"NULL datacache."\<close>
  | NilDatacache            \<comment> \<open>"Nil datacache" / "Nil datacache."\<close>
  | KeyExists Key           \<comment> \<open>"Key \"%s\" exists."\<close>
  | MissingKey Key          \<comment> \<open>"Missing key ..."\<close>
  | KeyDoesntExist          \<comment> \<open>"Key doesn't exist."\<close>
  | AlreadyExecuted         \<comment> \<open>"Already executed ... sequence."\<close>
  | NilLoader               \<comment> \<open>"Nil datacache loader."\<close>
  | LoadFailed              \<comment> \<open>"Load function failed."\<close>
  | NilIterator             \<comment> \<open>"Nil datacache iterator."\<close>
  | NilHandler              \<comment> \<open>"Nil or no cache record handler provided."\<close>

text \<open>
  What a call does: it returns its results, or it waits for a lock that is held (in one
  thread: for ever), or it stops with a run-time panic or fatal error. The state that
  comes with \<open>Blocks\<close> or \<open>Panics\<close> is the state at that point.
\<close>

datatype 'r outcome = Returns 'r | Blocks | Panics

section \<open>Helpers shared by the operations\<close>

text \<open>
  Running a method body on the object its receiver points to; the methods check the
  receiver for \<^verbatim>\<open>nil\<close> first, so the first equation is never reached by them.
\<close>

fun deref :: "('p DataCache \<Rightarrow> 'r outcome \<times> 'p DataCache) \<Rightarrow> 'p DataCache option
    \<Rightarrow> 'r outcome \<times> 'p DataCache option" where
  "deref body None = (Panics, None)"
| "deref body (Some dc) = (case body dc of (r, dc') \<Rightarrow> (r, Some dc'))"

text \<open>Sequencing: the next step runs only when the step before it has returned.\<close>

fun and_then :: "'a outcome \<times> 's \<Rightarrow> ('a \<Rightarrow> 's \<Rightarrow> 'b outcome \<times> 's) \<Rightarrow> 'b outcome \<times> 's" where
  "and_then (Returns x, s) f = f x s"
| "and_then (Blocks, s) f = (Blocks, s)"
| "and_then (Panics, s) f = (Panics, s)"

text \<open>The four calls on \<^verbatim>\<open>pDataCache.cacheLock\<close>.\<close>

definition cacheLock_Lock :: "'p DataCache \<Rightarrow> unit outcome \<times> 'p DataCache" where
  "cacheLock_Lock dc =
     (case RWMutex_Lock (cacheLock dc) of
        None \<Rightarrow> (Blocks, dc) | Some l \<Rightarrow> (Returns (), dc\<lparr>cacheLock := l\<rparr>))"

definition cacheLock_Unlock :: "'p DataCache \<Rightarrow> unit outcome \<times> 'p DataCache" where
  "cacheLock_Unlock dc =
     (case RWMutex_Unlock (cacheLock dc) of
        None \<Rightarrow> (Panics, dc) | Some l \<Rightarrow> (Returns (), dc\<lparr>cacheLock := l\<rparr>))"

definition cacheLock_RLock :: "'p DataCache \<Rightarrow> unit outcome \<times> 'p DataCache" where
  "cacheLock_RLock dc =
     (case RWMutex_RLock (cacheLock dc) of
        None \<Rightarrow> (Blocks, dc) | Some l \<Rightarrow> (Returns (), dc\<lparr>cacheLock := l\<rparr>))"

definition cacheLock_RUnlock :: "'p DataCache \<Rightarrow> unit outcome \<times> 'p DataCache" where
  "cacheLock_RUnlock dc =
     (case RWMutex_RUnlock (cacheLock dc) of
        None \<Rightarrow> (Panics, dc) | Some l \<Rightarrow> (Returns (), dc\<lparr>cacheLock := l\<rparr>))"

text \<open>
  A deferred call runs when the body returns or panics, not while it waits for a lock.
\<close>

definition deferred :: "('p DataCache \<Rightarrow> unit outcome \<times> 'p DataCache)
    \<Rightarrow> 'r outcome \<times> 'p DataCache \<Rightarrow> 'r outcome \<times> 'p DataCache" where
  "deferred d res =
     (case res of
        (Blocks, dc') \<Rightarrow> (Blocks, dc')
      | (r, dc') \<Rightarrow> and_then (d dc') (\<lambda>_ dc''. (r, dc'')))"

text \<open>
  \<^verbatim>\<open>pDataCache.cacheLock.Lock(); defer pDataCache.cacheLock.Unlock()\<close> around a body, and
  the same with \<^verbatim>\<open>RLock\<close> and \<^verbatim>\<open>RUnlock\<close>.
\<close>

definition with_Lock :: "('p DataCache \<Rightarrow> 'r outcome \<times> 'p DataCache) \<Rightarrow> 'p DataCache
    \<Rightarrow> 'r outcome \<times> 'p DataCache" where
  "with_Lock body dc =
     and_then (cacheLock_Lock dc) (\<lambda>_ dc1. deferred cacheLock_Unlock (body dc1))"

definition with_RLock :: "('p DataCache \<Rightarrow> 'r outcome \<times> 'p DataCache) \<Rightarrow> 'p DataCache
    \<Rightarrow> 'r outcome \<times> 'p DataCache" where
  "with_RLock body dc =
     and_then (cacheLock_RLock dc) (\<lambda>_ dc1. deferred cacheLock_RUnlock (body dc1))"

text \<open>
  \<^verbatim>\<open>prec.pRecLock.Lock()\<close> and \<^verbatim>\<open>prec.pRecLock.Unlock()\<close> on the record at an address; a
  \<^verbatim>\<open>nil\<close> \<^verbatim>\<open>pRecLock\<close> is a nil-pointer dereference.
\<close>

definition pRecLock_Lock :: "addr \<Rightarrow> 'p DataCache \<Rightarrow> unit outcome \<times> 'p DataCache" where
  "pRecLock_Lock prec dc =
     (case pRecLock (recs dc ! prec) of
        None \<Rightarrow> (Panics, dc)
      | Some m \<Rightarrow>
          (case Mutex_Lock m of
             None \<Rightarrow> (Blocks, dc)
           | Some m' \<Rightarrow>
               (Returns (), dc\<lparr>recs := (recs dc)[prec := (recs dc ! prec)\<lparr>pRecLock := Some m'\<rparr>]\<rparr>)))"

definition pRecLock_Unlock :: "addr \<Rightarrow> 'p DataCache \<Rightarrow> unit outcome \<times> 'p DataCache" where
  "pRecLock_Unlock prec dc =
     (case pRecLock (recs dc ! prec) of
        None \<Rightarrow> (Panics, dc)
      | Some m \<Rightarrow>
          (case Mutex_Unlock m of
             None \<Rightarrow> (Panics, dc)
           | Some m' \<Rightarrow>
               (Returns (), dc\<lparr>recs := (recs dc)[prec := (recs dc ! prec)\<lparr>pRecLock := Some m'\<rparr>]\<rparr>)))"

text \<open>
  The lines every add shares: a new record object with a fresh mutex, every key of
  \<open>keyList\<close> stored in the map with the address of that object, \<open>cnt\<close> incremented.
\<close>

definition new_Rec :: "Key list \<Rightarrow> 'p option \<Rightarrow> 'p Rec" where
  "new_Rec keyList pRec =
     \<lparr>KeyList = keyList, PDataRec = pRec, isActive = True, refcnt = 0,
      pRecLock = Some 0, pUnlockRecLock = None\<rparr>"

definition store_keys :: "Key list \<Rightarrow> addr \<Rightarrow> (Key \<times> addr) list \<Rightarrow> (Key \<times> addr) list" where
  "store_keys keyList pDataCacheRec c = fold (\<lambda>k. AList.update k pDataCacheRec) keyList c"

definition add_record :: "Key list \<Rightarrow> 'p option \<Rightarrow> 'p DataCache \<Rightarrow> 'p DataCache" where
  "add_record keyList pRec dc =
     dc\<lparr>recs := recs dc @ [new_Rec keyList pRec],
        cache := store_keys keyList (length (recs dc)) (cache dc),
        cnt := cnt dc + 1\<rparr>"

text \<open>
  The existence check of the adds: the first key of \<open>keyList\<close> that is in the map.
\<close>

definition first_existing :: "Key list \<Rightarrow> (Key \<times> addr) list \<Rightarrow> Key option" where
  "first_existing keyList c = find (\<lambda>k. map_of c k \<noteq> None) keyList"

text \<open>
  The first loop of the forced adds:
  \<^verbatim>\<open>for i, _ := range keyList { if _, isOK := cache[keyList[i]]; isOK { delete(cache, i) } }\<close>.
  What is deleted is the key \<^verbatim>\<open>i\<close>, the loop index, an \<^verbatim>\<open>int\<close>.
\<close>

definition displace :: "Key list \<Rightarrow> (Key \<times> addr) list \<Rightarrow> (Key \<times> addr) list" where
  "displace keyList c =
     fold (\<lambda>i c'. if map_of c' (keyList ! i) \<noteq> None then AList.delete (KInt (int i)) c' else c')
       [0..<length keyList] c"

text \<open>
  The last lines of the \<^verbatim>\<open>AndGet\<close> adds:
  \<^verbatim>\<open>prec, _ := pDataCache.cache[keyList[0]]; prec.pRecLock.Lock()\<close>.
  \<^verbatim>\<open>keyList[0]\<close> of an empty list is an index out of range.
\<close>

definition get_locked :: "Key list \<Rightarrow> 'p DataCache
    \<Rightarrow> (int \<times> addr option \<times> error option) outcome \<times> 'p DataCache" where
  "get_locked keyList dc =
     (case keyList of
        [] \<Rightarrow> (Panics, dc)
      | k0 # _ \<Rightarrow>
          (case map_of (cache dc) k0 of
             None \<Rightarrow> (Panics, dc)
           | Some prec \<Rightarrow>
               and_then (pRecLock_Lock prec dc)
                 (\<lambda>_ dc'. (Returns (cnt dc', Some prec, None), dc'))))"

section \<open>Adding records\<close>

definition AddRecWOLock_body :: "Key list \<Rightarrow> 'p option \<Rightarrow> bool \<Rightarrow> 'p DataCache
    \<Rightarrow> (int \<times> error option) outcome \<times> 'p DataCache" where
  "AddRecWOLock_body keyList pRec recExistsErrFlag dc =
     (case (if recExistsErrFlag then first_existing keyList (cache dc) else None) of
        Some k \<Rightarrow> (Returns (- 1, Some (KeyExists k)), dc)
      | None \<Rightarrow> (let dc' = add_record keyList pRec dc in (Returns (cnt dc', None), dc')))"

definition AddRecWOLock :: "'p DataCache option \<Rightarrow> Key list \<Rightarrow> 'p option \<Rightarrow> bool
    \<Rightarrow> (int \<times> error option) outcome \<times> 'p DataCache option" where
  "AddRecWOLock pDataCache keyList pRec recExistsErrFlag =
     (if pDataCache = None \<or> pRec = None
      then (Returns (- 1, Some NullDatacacheOrPayload), pDataCache)
      else deref (AddRecWOLock_body keyList pRec recExistsErrFlag) pDataCache)"

definition AddRec :: "'p DataCache option \<Rightarrow> Key list \<Rightarrow> 'p option \<Rightarrow> bool
    \<Rightarrow> (int \<times> error option) outcome \<times> 'p DataCache option" where
  "AddRec pDataCache keyList pRec recExistsErrFlag =
     (if pDataCache = None \<or> pRec = None
      then (Returns (- 1, Some NullDatacacheOrPayload), pDataCache)
      else deref (with_Lock (AddRecWOLock_body keyList pRec recExistsErrFlag)) pDataCache)"

definition ForceAddRecWOLock_body :: "Key list \<Rightarrow> 'p option \<Rightarrow> 'p DataCache
    \<Rightarrow> (int \<times> error option) outcome \<times> 'p DataCache" where
  "ForceAddRecWOLock_body keyList pRec dc =
     (let dc' = add_record keyList pRec (dc\<lparr>cache := displace keyList (cache dc)\<rparr>)
      in (Returns (cnt dc', None), dc'))"

definition ForceAddRecWOLock :: "'p DataCache option \<Rightarrow> Key list \<Rightarrow> 'p option
    \<Rightarrow> (int \<times> error option) outcome \<times> 'p DataCache option" where
  "ForceAddRecWOLock pDataCache keyList pRec =
     (if pDataCache = None \<or> pRec = None
      then (Returns (- 1, Some NullDatacacheOrPayload), pDataCache)
      else deref (ForceAddRecWOLock_body keyList pRec) pDataCache)"

definition ForceAddRec :: "'p DataCache option \<Rightarrow> Key list \<Rightarrow> 'p option
    \<Rightarrow> (int \<times> error option) outcome \<times> 'p DataCache option" where
  "ForceAddRec pDataCache keyList pRec =
     (if pDataCache = None \<or> pRec = None
      then (Returns (- 1, Some NullDatacacheOrPayload), pDataCache)
      else deref (with_Lock (ForceAddRecWOLock_body keyList pRec)) pDataCache)"

definition AddAndGetRecWOLock_body :: "Key list \<Rightarrow> 'p option \<Rightarrow> bool \<Rightarrow> 'p DataCache
    \<Rightarrow> (int \<times> addr option \<times> error option) outcome \<times> 'p DataCache" where
  "AddAndGetRecWOLock_body keyList pRec recExistsErrFlag dc =
     (case (if recExistsErrFlag then first_existing keyList (cache dc) else None) of
        Some k \<Rightarrow> (Returns (- 1, None, Some (KeyExists k)), dc)
      | None \<Rightarrow> get_locked keyList (add_record keyList pRec dc))"

definition AddAndGetRecWOLock :: "'p DataCache option \<Rightarrow> Key list \<Rightarrow> 'p option \<Rightarrow> bool
    \<Rightarrow> (int \<times> addr option \<times> error option) outcome \<times> 'p DataCache option" where
  "AddAndGetRecWOLock pDataCache keyList pRec recExistsErrFlag =
     (if pDataCache = None \<or> pRec = None
      then (Returns (- 1, None, Some NullDatacacheOrPayload), pDataCache)
      else deref (AddAndGetRecWOLock_body keyList pRec recExistsErrFlag) pDataCache)"

definition AddAndGetRec :: "'p DataCache option \<Rightarrow> Key list \<Rightarrow> 'p option \<Rightarrow> bool
    \<Rightarrow> (int \<times> addr option \<times> error option) outcome \<times> 'p DataCache option" where
  "AddAndGetRec pDataCache keyList pRec recExistsErrFlag =
     (if pDataCache = None \<or> pRec = None
      then (Returns (- 1, None, Some NullDatacacheOrPayload), pDataCache)
      else deref (with_Lock (AddAndGetRecWOLock_body keyList pRec recExistsErrFlag)) pDataCache)"

definition ForceAddAndGetRecWOLock_body :: "Key list \<Rightarrow> 'p option \<Rightarrow> 'p DataCache
    \<Rightarrow> (int \<times> addr option \<times> error option) outcome \<times> 'p DataCache" where
  "ForceAddAndGetRecWOLock_body keyList pRec dc =
     get_locked keyList (add_record keyList pRec (dc\<lparr>cache := displace keyList (cache dc)\<rparr>))"

definition ForceAddAndGetRecWOLock :: "'p DataCache option \<Rightarrow> Key list \<Rightarrow> 'p option
    \<Rightarrow> (int \<times> addr option \<times> error option) outcome \<times> 'p DataCache option" where
  "ForceAddAndGetRecWOLock pDataCache keyList pRec =
     (if pDataCache = None \<or> pRec = None
      then (Returns (- 1, None, Some NullDatacacheOrPayload), pDataCache)
      else deref (ForceAddAndGetRecWOLock_body keyList pRec) pDataCache)"

definition ForceAddAndGetRec :: "'p DataCache option \<Rightarrow> Key list \<Rightarrow> 'p option
    \<Rightarrow> (int \<times> addr option \<times> error option) outcome \<times> 'p DataCache option" where
  "ForceAddAndGetRec pDataCache keyList pRec =
     (if pDataCache = None \<or> pRec = None
      then (Returns (- 1, None, Some NullDatacacheOrPayload), pDataCache)
      else deref (with_Lock (ForceAddAndGetRecWOLock_body keyList pRec)) pDataCache)"

text \<open>\<^verbatim>\<open>Create\<close>: an empty map and the two callbacks; every other field has its zero value.\<close>

definition Create :: "(unit \<Rightarrow> bool \<times> 'p Payload list) option \<Rightarrow> ('p HandlerArg \<Rightarrow> bool) option
    \<Rightarrow> 'p DataCache option" where
  "Create loadFunc iteratorFunc =
     Some \<lparr>cacheLock = \<lparr>writer = False, readers = 0\<rparr>, cache = [], loadfn = loadFunc,
           reciteratefn = iteratorFunc, cnt = 0, singletonFlag = False, recs = [], calls = []\<rparr>"

section \<open>Locking by hand\<close>

definition ReadLock :: "'p DataCache option \<Rightarrow> unit outcome \<times> 'p DataCache option" where
  "ReadLock pDataCache =
     (if pDataCache \<noteq> None then deref cacheLock_RLock pDataCache else (Returns (), pDataCache))"

definition ReadUnlock :: "'p DataCache option \<Rightarrow> unit outcome \<times> 'p DataCache option" where
  "ReadUnlock pDataCache =
     (if pDataCache \<noteq> None then deref cacheLock_RUnlock pDataCache else (Returns (), pDataCache))"

definition WriteLock :: "'p DataCache option \<Rightarrow> unit outcome \<times> 'p DataCache option" where
  "WriteLock pDataCache =
     (if pDataCache \<noteq> None then deref cacheLock_Lock pDataCache else (Returns (), pDataCache))"

definition WriteUnlock :: "'p DataCache option \<Rightarrow> unit outcome \<times> 'p DataCache option" where
  "WriteUnlock pDataCache =
     (if pDataCache \<noteq> None then deref cacheLock_Unlock pDataCache else (Returns (), pDataCache))"

text \<open>
  The two methods of \<^verbatim>\<open>*Rec\<close>, on the record object (\<open>None\<close> is the \<^verbatim>\<open>nil\<close> receiver); what
  they print is left out. \<^verbatim>\<open>RecUnlock\<close> reads the mutex's \<^verbatim>\<open>state\<close> and calls \<^verbatim>\<open>Unlock\<close>
  only when bit 0 is set.
\<close>

definition RecLock :: "'p Rec option \<Rightarrow> unit outcome \<times> 'p Rec option" where
  "RecLock pRec =
     (case pRec of
        None \<Rightarrow> (Returns (), pRec)
      | Some r \<Rightarrow>
          (case pRecLock r of
             None \<Rightarrow> (Returns (), pRec)
           | Some m \<Rightarrow>
               (case Mutex_Lock m of
                  None \<Rightarrow> (Blocks, pRec)
                | Some m' \<Rightarrow> (Returns (), Some (r\<lparr>pRecLock := Some m'\<rparr>)))))"

definition RecUnlock :: "'p Rec option \<Rightarrow> unit outcome \<times> 'p Rec option" where
  "RecUnlock pRec =
     (case pRec of
        None \<Rightarrow> (Returns (), pRec)
      | Some r \<Rightarrow>
          (case pRecLock r of
             None \<Rightarrow> (Returns (), pRec)
           | Some state \<Rightarrow>
               (let isLocked = (state AND mutexLocked = mutexLocked) in
                if isLocked
                then (case Mutex_Unlock state of
                        None \<Rightarrow> (Panics, pRec)
                      | Some m' \<Rightarrow> (Returns (), Some (r\<lparr>pRecLock := Some m'\<rparr>)))
                else (Returns (), pRec))))"

text \<open>A method of \<^verbatim>\<open>*Rec\<close> called through a handle: the object at the address is replaced.\<close>

definition on_rec :: "('p Rec option \<Rightarrow> unit outcome \<times> 'p Rec option) \<Rightarrow> addr \<Rightarrow> 'p DataCache
    \<Rightarrow> unit outcome \<times> 'p DataCache" where
  "on_rec method prec dc =
     (case method (Some (recs dc ! prec)) of
        (r, Some rec') \<Rightarrow> (r, dc\<lparr>recs := (recs dc)[prec := rec']\<rparr>)
      | (r, None) \<Rightarrow> (r, dc))"

section \<open>Mapping a record to one more key\<close>

text \<open>
  \<^verbatim>\<open>pRec.KeyList = append(pRec.KeyList, newKey); pDataCache.cache[newKey] = pRec\<close>.
\<close>

definition readd :: "addr \<Rightarrow> Key \<Rightarrow> 'p DataCache \<Rightarrow> 'p DataCache" where
  "readd pRec newKey dc =
     dc\<lparr>recs := (recs dc)[pRec := (recs dc ! pRec)\<lparr>KeyList := KeyList (recs dc ! pRec) @ [newKey]\<rparr>],
        cache := AList.update newKey pRec (cache dc)\<rparr>"

definition ReAddRecWOLock_body :: "Key \<Rightarrow> Key \<Rightarrow> 'p DataCache
    \<Rightarrow> (int \<times> error option) outcome \<times> 'p DataCache" where
  "ReAddRecWOLock_body originalKey newKey dc =
     (case map_of (cache dc) originalKey of
        Some pRec \<Rightarrow> (let dc' = readd pRec newKey dc in (Returns (cnt dc', None), dc'))
      | None \<Rightarrow> (Returns (- 1, Some (MissingKey originalKey)), dc))"

definition ReAddRecWOLock :: "'p DataCache option \<Rightarrow> Key \<Rightarrow> Key
    \<Rightarrow> (int \<times> error option) outcome \<times> 'p DataCache option" where
  "ReAddRecWOLock pDataCache originalKey newKey =
     (if pDataCache = None then (Returns (- 1, Some NullDatacache), pDataCache)
      else deref (ReAddRecWOLock_body originalKey newKey) pDataCache)"

definition ReAddRec :: "'p DataCache option \<Rightarrow> Key \<Rightarrow> Key
    \<Rightarrow> (int \<times> error option) outcome \<times> 'p DataCache option" where
  "ReAddRec pDataCache originalKey newKey =
     (if pDataCache = None then (Returns (- 1, Some NullDatacache), pDataCache)
      else deref (with_Lock (ReAddRecWOLock_body originalKey newKey)) pDataCache)"

definition ReAddAndGetRecWOLock_body :: "Key \<Rightarrow> Key \<Rightarrow> 'p DataCache
    \<Rightarrow> (int \<times> addr option \<times> error option) outcome \<times> 'p DataCache" where
  "ReAddAndGetRecWOLock_body originalKey newKey dc =
     (case map_of (cache dc) originalKey of
        Some pRec \<Rightarrow> get_locked [newKey] (readd pRec newKey dc)
      | None \<Rightarrow> (Returns (- 1, None, Some (MissingKey originalKey)), dc))"

definition ReAddAndGetRecWOLock :: "'p DataCache option \<Rightarrow> Key \<Rightarrow> Key
    \<Rightarrow> (int \<times> addr option \<times> error option) outcome \<times> 'p DataCache option" where
  "ReAddAndGetRecWOLock pDataCache originalKey newKey =
     (if pDataCache = None then (Returns (- 1, None, Some NullDatacache), pDataCache)
      else deref (ReAddAndGetRecWOLock_body originalKey newKey) pDataCache)"

definition ReAddAndGetRec :: "'p DataCache option \<Rightarrow> Key \<Rightarrow> Key
    \<Rightarrow> (int \<times> addr option \<times> error option) outcome \<times> 'p DataCache option" where
  "ReAddAndGetRec pDataCache originalKey newKey =
     (if pDataCache = None then (Returns (- 1, None, Some NullDatacache), pDataCache)
      else deref (with_Lock (ReAddAndGetRecWOLock_body originalKey newKey)) pDataCache)"

section \<open>Deleting\<close>

text \<open>
  \<^verbatim>\<open>DeleteKey\<close>: the deferred function unlocks the store and recovers from a panic; with
  hashable keys \<^verbatim>\<open>delete\<close> does not panic.
\<close>

definition DeleteKey :: "'p DataCache option \<Rightarrow> Key \<Rightarrow> error option outcome \<times> 'p DataCache option" where
  "DeleteKey pDataCache key =
     (if pDataCache = None then (Returns (Some NilDatacache), pDataCache)
      else deref (with_Lock (\<lambda>dc. (Returns None, dc\<lparr>cache := AList.delete key (cache dc)\<rparr>)))
             pDataCache)"

text \<open>
  The loop of the record deletes:
  \<^verbatim>\<open>keylist := pRec.KeyList; for _, key := range keylist { delete(pDataCache.cache, key) }\<close>.
\<close>

definition delete_keys :: "Key list \<Rightarrow> (Key \<times> addr) list \<Rightarrow> (Key \<times> addr) list" where
  "delete_keys keylist c = fold AList.delete keylist c"

text \<open>
  \<^verbatim>\<open>DeleteRec\<close> unlocks the store by hand before each \<^verbatim>\<open>return\<close>, with no deferred call:
  the store stays locked when the record lock is \<^verbatim>\<open>nil\<close> (a panic) or held.
\<close>

definition DeleteRec_locked :: "Key \<Rightarrow> 'p DataCache \<Rightarrow> (int \<times> error option) outcome \<times> 'p DataCache" where
  "DeleteRec_locked key dc =
     (case map_of (cache dc) key of
        None \<Rightarrow> and_then (cacheLock_Unlock dc) (\<lambda>_ dc'. (Returns (- 1, Some KeyDoesntExist), dc'))
      | Some pRec \<Rightarrow>
          and_then (pRecLock_Lock pRec dc) (\<lambda>_ dc1.
          and_then (pRecLock_Unlock pRec dc1) (\<lambda>_ dc2.
            (let keylist = KeyList (recs dc2 ! pRec);
                 dc3 = dc2\<lparr>cache := delete_keys keylist (cache dc2)\<rparr>;
                 dc4 = dc3\<lparr>cnt := cnt dc3 - 1\<rparr>;
                 cnt' = cnt dc4
             in and_then (cacheLock_Unlock dc4) (\<lambda>_ dc5. (Returns (cnt', None), dc5))))))"

definition DeleteRec :: "'p DataCache option \<Rightarrow> Key \<Rightarrow> (int \<times> error option) outcome \<times> 'p DataCache option" where
  "DeleteRec pDataCache key =
     (if pDataCache = None then (Returns (- 1, Some NilDatacache), pDataCache)
      else deref (\<lambda>dc. and_then (cacheLock_Lock dc) (\<lambda>_. DeleteRec_locked key)) pDataCache)"

definition DeleteRecWOLock_body :: "Key \<Rightarrow> 'p DataCache \<Rightarrow> (bool \<times> int) outcome \<times> 'p DataCache" where
  "DeleteRecWOLock_body key dc =
     (case map_of (cache dc) key of
        None \<Rightarrow> (Returns (True, 0), dc)
      | Some pRec \<Rightarrow>
          and_then (pRecLock_Lock pRec dc) (\<lambda>_ dc1.
            (let keylist = KeyList (recs dc1 ! pRec);
                 dc2 = dc1\<lparr>cache := delete_keys keylist (cache dc1)\<rparr>
             in and_then (pRecLock_Unlock pRec dc2) (\<lambda>_ dc3.
                  (let dc4 = dc3\<lparr>cnt := cnt dc3 - 1\<rparr> in (Returns (True, cnt dc4), dc4))))))"

definition DeleteRecWOLock :: "'p DataCache option \<Rightarrow> Key \<Rightarrow> (bool \<times> int) outcome \<times> 'p DataCache option" where
  "DeleteRecWOLock pDataCache key =
     (if pDataCache = None then (Returns (False, 0), pDataCache)
      else deref (DeleteRecWOLock_body key) pDataCache)"

text \<open>
  The loop of \<^verbatim>\<open>DeleteCache\<close> visits every entry of the map once; it deletes the key of
  the entry it is at, between \<^verbatim>\<open>Lock\<close> and \<^verbatim>\<open>Unlock\<close> of the entry's record when that has a
  lock. \<open>cnt\<close> is not assigned.
\<close>

fun DeleteCache_loop :: "(Key \<times> addr) list \<Rightarrow> 'p DataCache \<Rightarrow> unit outcome \<times> 'p DataCache" where
  "DeleteCache_loop [] dc = (Returns (), dc)"
| "DeleteCache_loop ((key, prec) # entries) dc =
     (if pRecLock (recs dc ! prec) \<noteq> None
      then (case pRecLock_Lock prec dc of
              (Returns _, dc1) \<Rightarrow>
                (case pRecLock_Unlock prec (dc1\<lparr>cache := AList.delete key (cache dc1)\<rparr>) of
                   (Returns _, dc2) \<Rightarrow> DeleteCache_loop entries dc2
                 | (Blocks, dc2) \<Rightarrow> (Blocks, dc2)
                 | (Panics, dc2) \<Rightarrow> (Panics, dc2))
            | (Blocks, dc1) \<Rightarrow> (Blocks, dc1)
            | (Panics, dc1) \<Rightarrow> (Panics, dc1))
      else DeleteCache_loop entries (dc\<lparr>cache := AList.delete key (cache dc)\<rparr>))"

definition DeleteCacheWOLock_body :: "'p DataCache \<Rightarrow> bool outcome \<times> 'p DataCache" where
  "DeleteCacheWOLock_body dc =
     and_then (DeleteCache_loop (cache dc) dc) (\<lambda>_ dc'. (Returns True, dc'))"

definition DeleteCacheWOLock :: "'p DataCache option \<Rightarrow> bool outcome \<times> 'p DataCache option" where
  "DeleteCacheWOLock pDataCache =
     (if pDataCache = None then (Returns False, pDataCache)
      else deref DeleteCacheWOLock_body pDataCache)"

definition DeleteCache :: "'p DataCache option \<Rightarrow> bool outcome \<times> 'p DataCache option" where
  "DeleteCache pDataCache =
     (if pDataCache = None then (Returns False, pDataCache)
      else deref (\<lambda>dc. and_then (cacheLock_Lock dc) (\<lambda>_ dc1.
                        and_then (DeleteCache_loop (cache dc1) dc1) (\<lambda>_ dc2.
                        and_then (cacheLock_Unlock dc2) (\<lambda>_ dc3. (Returns True, dc3)))))
             pDataCache)"

section \<open>Reading and updating records\<close>

definition UpdateRecStateWOLock_body :: "Key \<Rightarrow> bool \<Rightarrow> 'p DataCache \<Rightarrow> bool outcome \<times> 'p DataCache" where
  "UpdateRecStateWOLock_body key recState dc =
     (case map_of (cache dc) key of
        None \<Rightarrow> (Returns False, dc)
      | Some pRec \<Rightarrow>
          and_then (pRecLock_Lock pRec dc) (\<lambda>_ dc1.
          and_then (pRecLock_Unlock pRec
                      (dc1\<lparr>recs := (recs dc1)[pRec := (recs dc1 ! pRec)\<lparr>isActive := recState\<rparr>]\<rparr>))
            (\<lambda>_ dc2. (Returns True, dc2))))"

definition UpdateRecStateWOLock :: "'p DataCache option \<Rightarrow> Key \<Rightarrow> bool \<Rightarrow> bool outcome \<times> 'p DataCache option" where
  "UpdateRecStateWOLock pDataCache key recState =
     (if pDataCache = None then (Returns False, pDataCache)
      else deref (UpdateRecStateWOLock_body key recState) pDataCache)"

definition UpdateRecState :: "'p DataCache option \<Rightarrow> Key \<Rightarrow> bool \<Rightarrow> bool outcome \<times> 'p DataCache option" where
  "UpdateRecState pDataCache key recState =
     (if pDataCache = None then (Returns False, pDataCache)
      else deref (with_RLock (UpdateRecStateWOLock_body key recState)) pDataCache)"

definition GetRecWOLock_body :: "Key \<Rightarrow> 'p DataCache \<Rightarrow> (bool \<times> addr option) outcome \<times> 'p DataCache" where
  "GetRecWOLock_body key dc =
     (case map_of (cache dc) key of
        None \<Rightarrow> (Returns (False, None), dc)
      | Some pRec \<Rightarrow>
          and_then (pRecLock_Lock pRec dc) (\<lambda>_ dc1. (Returns (True, Some pRec), dc1)))"

definition GetRecWOLock :: "'p DataCache option \<Rightarrow> Key \<Rightarrow> (bool \<times> addr option) outcome \<times> 'p DataCache option" where
  "GetRecWOLock pDataCache key =
     (if pDataCache = None then (Returns (False, None), pDataCache)
      else deref (GetRecWOLock_body key) pDataCache)"

definition GetRec :: "'p DataCache option \<Rightarrow> Key \<Rightarrow> (bool \<times> addr option) outcome \<times> 'p DataCache option" where
  "GetRec pDataCache key =
     (if pDataCache = None then (Returns (False, None), pDataCache)
      else deref (with_RLock (GetRecWOLock_body key)) pDataCache)"

definition GetDataRecWOLock_body :: "Key \<Rightarrow> 'p DataCache \<Rightarrow> (bool \<times> 'p option) outcome \<times> 'p DataCache" where
  "GetDataRecWOLock_body key dc =
     (case map_of (cache dc) key of
        None \<Rightarrow> (Returns (False, None), dc)
      | Some pRec \<Rightarrow>
          and_then (pRecLock_Lock pRec dc) (\<lambda>_ dc1.
            (let pDataRec = PDataRec (recs dc1 ! pRec)
             in and_then (pRecLock_Unlock pRec dc1) (\<lambda>_ dc2. (Returns (True, pDataRec), dc2)))))"

definition GetDataRecWOLock :: "'p DataCache option \<Rightarrow> Key \<Rightarrow> (bool \<times> 'p option) outcome \<times> 'p DataCache option" where
  "GetDataRecWOLock pDataCache key =
     (if pDataCache = None then (Returns (False, None), pDataCache)
      else deref (GetDataRecWOLock_body key) pDataCache)"

definition GetDataRec :: "'p DataCache option \<Rightarrow> Key \<Rightarrow> (bool \<times> 'p option) outcome \<times> 'p DataCache option" where
  "GetDataRec pDataCache key =
     (if pDataCache = None then (Returns (False, None), pDataCache)
      else deref (with_RLock (GetDataRecWOLock_body key)) pDataCache)"

definition DoesKeyExistWOLock_body :: "Key \<Rightarrow> 'p DataCache \<Rightarrow> bool outcome \<times> 'p DataCache" where
  "DoesKeyExistWOLock_body key dc =
     (if map_of (cache dc) key = None then (Returns False, dc) else (Returns True, dc))"

definition DoesKeyExistWOLock :: "'p DataCache option \<Rightarrow> Key \<Rightarrow> bool outcome \<times> 'p DataCache option" where
  "DoesKeyExistWOLock pDataCache key =
     (if pDataCache = None then (Returns False, pDataCache)
      else deref (DoesKeyExistWOLock_body key) pDataCache)"

definition DoesKeyExist :: "'p DataCache option \<Rightarrow> Key \<Rightarrow> bool outcome \<times> 'p DataCache option" where
  "DoesKeyExist pDataCache key =
     (if pDataCache = None then (Returns False, pDataCache)
      else deref (with_RLock (DoesKeyExistWOLock_body key)) pDataCache)"

definition GetCnt :: "'p DataCache option \<Rightarrow> (bool \<times> int) outcome \<times> 'p DataCache option" where
  "GetCnt pDataCache =
     (if pDataCache = None then (Returns (False, 0), pDataCache)
      else deref (with_Lock (\<lambda>dc. (Returns (True, cnt dc), dc))) pDataCache)"

definition SetCnt :: "'p DataCache option \<Rightarrow> int \<Rightarrow> (bool \<times> int) outcome \<times> 'p DataCache option" where
  "SetCnt pDataCache val =
     (if pDataCache = None then (Returns (False, 0), pDataCache)
      else deref (with_Lock (\<lambda>dc. (let dc' = dc\<lparr>cnt := val\<rparr> in (Returns (True, cnt dc'), dc'))))
             pDataCache)"

section \<open>Load-time sequences\<close>

text \<open>
  The loop over the loader's list: one new record object per element, its keys stored in
  the map; then \<^verbatim>\<open>pDataCache.cnt = len(recList)\<close>.
\<close>

definition load_record :: "'p Payload \<Rightarrow> 'p DataCache \<Rightarrow> 'p DataCache" where
  "load_record pl dc =
     dc\<lparr>recs := recs dc @ [new_Rec (Payload_KeyList pl) (Payload_PDataRec pl)],
        cache := store_keys (Payload_KeyList pl) (length (recs dc)) (cache dc)\<rparr>"

definition load_records :: "'p Payload list \<Rightarrow> 'p DataCache \<Rightarrow> 'p DataCache" where
  "load_records recList dc = (fold load_record recList dc)\<lparr>cnt := int (length recList)\<rparr>"

text \<open>
  \<^verbatim>\<open>for _, pRec := range pDataCache.cache { pDataCache.reciteratefn(pRec.PDataRec) }\<close>:
  one call for each entry of the map, with the payload of the entry's record.
\<close>

definition iterate_records :: "'p DataCache \<Rightarrow> 'p DataCache" where
  "iterate_records dc =
     dc\<lparr>calls := calls dc @ map (\<lambda>(key, pRec). ArgPayload (PDataRec (recs dc ! pRec))) (cache dc)\<rparr>"

definition Load_body :: "bool \<Rightarrow> 'p DataCache \<Rightarrow> (bool \<times> error option) outcome \<times> 'p DataCache" where
  "Load_body isLoaderProvided dc =
     (if singletonFlag dc then (Returns (False, Some AlreadyExecuted), dc)
      else (case loadfn dc of
              None \<Rightarrow>
                (if \<not> isLoaderProvided then (Returns (True, None), dc)
                 else (Returns (False, Some NilLoader), dc))
            | Some f \<Rightarrow>
                (case f () of (isOK, recList) \<Rightarrow>
                   if \<not> isOK then (Returns (False, Some LoadFailed), dc)
                   else (Returns (True, None), load_records recList dc))))"

text \<open>
  The deferred function of \<^verbatim>\<open>Load\<close>:
  \<^verbatim>\<open>if pDataCache.reciteratefn == nil { pDataCache.singletonFlag = true }; Unlock()\<close>.
\<close>

definition Load_deferred :: "'p DataCache \<Rightarrow> unit outcome \<times> 'p DataCache" where
  "Load_deferred dc =
     cacheLock_Unlock (if reciteratefn dc = None then dc\<lparr>singletonFlag := True\<rparr> else dc)"

definition Load :: "'p DataCache option \<Rightarrow> bool \<Rightarrow> (bool \<times> error option) outcome \<times> 'p DataCache option" where
  "Load pDataCache isLoaderProvided =
     (if pDataCache = None then (Returns (False, Some NilDatacache), pDataCache)
      else deref (\<lambda>dc. and_then (cacheLock_Lock dc)
                    (\<lambda>_ dc1. deferred Load_deferred (Load_body isLoaderProvided dc1)))
             pDataCache)"

definition Iterate_body :: "bool \<Rightarrow> 'p DataCache \<Rightarrow> (bool \<times> error option) outcome \<times> 'p DataCache" where
  "Iterate_body isIteratorProvided dc =
     (if singletonFlag dc then (Returns (False, Some AlreadyExecuted), dc)
      else (case reciteratefn dc of
              None \<Rightarrow>
                (if \<not> isIteratorProvided then (Returns (True, None), dc)
                 else (Returns (False, Some NilIterator), dc))
            | Some h \<Rightarrow> (Returns (True, None), iterate_records dc)))"

text \<open>
  The deferred function of \<^verbatim>\<open>Iterate\<close> and of \<^verbatim>\<open>LoadAndIterate\<close>:
  \<^verbatim>\<open>pDataCache.singletonFlag = true; Unlock()\<close>.
\<close>

definition Iterate_deferred :: "'p DataCache \<Rightarrow> unit outcome \<times> 'p DataCache" where
  "Iterate_deferred dc = cacheLock_Unlock (dc\<lparr>singletonFlag := True\<rparr>)"

definition Iterate :: "'p DataCache option \<Rightarrow> string \<Rightarrow> bool
    \<Rightarrow> (bool \<times> error option) outcome \<times> 'p DataCache option" where
  "Iterate pDataCache cacheName isIteratorProvided =
     (if pDataCache = None then (Returns (False, Some NilDatacache), pDataCache)
      else deref (\<lambda>dc. and_then (cacheLock_Lock dc)
                    (\<lambda>_ dc1. deferred Iterate_deferred (Iterate_body isIteratorProvided dc1)))
             pDataCache)"

definition LoadAndIterate_body :: "bool \<Rightarrow> bool \<Rightarrow> 'p DataCache
    \<Rightarrow> (bool \<times> error option) outcome \<times> 'p DataCache" where
  "LoadAndIterate_body isLoaderProvided isIteratorProvided dc =
     (if singletonFlag dc then (Returns (False, Some AlreadyExecuted), dc)
      else (case loadfn dc of
              None \<Rightarrow>
                (if \<not> isLoaderProvided then (Returns (True, None), dc)
                 else (Returns (False, Some NilLoader), dc))
            | Some f \<Rightarrow>
                (case f () of (isOK, recList) \<Rightarrow>
                   if \<not> isOK then (Returns (False, Some LoadFailed), dc)
                   else (let dc' = load_records recList dc in
                         case reciteratefn dc' of
                           None \<Rightarrow>
                             (if \<not> isIteratorProvided then (Returns (True, None), dc')
                              else (Returns (False, Some NilIterator), dc'))
                         | Some h \<Rightarrow> (Returns (True, None), iterate_records dc')))))"

definition LoadAndIterate :: "'p DataCache option \<Rightarrow> bool \<Rightarrow> bool
    \<Rightarrow> (bool \<times> error option) outcome \<times> 'p DataCache option" where
  "LoadAndIterate pDataCache isLoaderProvided isIteratorProvided =
     (if pDataCache = None then (Returns (False, Some NilDatacache), pDataCache)
      else deref (\<lambda>dc. and_then (cacheLock_Lock dc)
                    (\<lambda>_ dc1. deferred Iterate_deferred
                               (LoadAndIterate_body isLoaderProvided isIteratorProvided dc1)))
             pDataCache)"

text \<open>
  The loop of \<^verbatim>\<open>AuxIterate\<close>:
  \<^verbatim>\<open>for _, pRec := range pDataCache.cache { pRec.RecLock(); recHandler(pRec); pRec.RecUnlock() }\<close>.
\<close>

fun AuxIterate_loop :: "(Key \<times> addr) list \<Rightarrow> 'p DataCache \<Rightarrow> unit outcome \<times> 'p DataCache" where
  "AuxIterate_loop [] dc = (Returns (), dc)"
| "AuxIterate_loop ((key, pRec) # entries) dc =
     (case on_rec RecLock pRec dc of
        (Returns _, dc1) \<Rightarrow>
          (case on_rec RecUnlock pRec (dc1\<lparr>calls := calls dc1 @ [ArgRec pRec]\<rparr>) of
             (Returns _, dc2) \<Rightarrow> AuxIterate_loop entries dc2
           | (Blocks, dc2) \<Rightarrow> (Blocks, dc2)
           | (Panics, dc2) \<Rightarrow> (Panics, dc2))
      | (Blocks, dc1) \<Rightarrow> (Blocks, dc1)
      | (Panics, dc1) \<Rightarrow> (Panics, dc1))"

definition AuxIterate :: "'p DataCache option \<Rightarrow> string \<Rightarrow> ('p HandlerArg \<Rightarrow> bool) option
    \<Rightarrow> (bool \<times> error option) outcome \<times> 'p DataCache option" where
  "AuxIterate pDataCache cacheName recHandler =
     (if pDataCache = None then (Returns (False, Some NilDatacache), pDataCache)
      else if recHandler = None then (Returns (False, Some NilHandler), pDataCache)
      else deref (with_Lock (\<lambda>dc.
             if recHandler = None then (Returns (False, Some NilIterator), dc)
             else and_then (AuxIterate_loop (cache dc) dc) (\<lambda>_ dc'. (Returns (True, None), dc'))))
             pDataCache)"

section \<open>Sequences of calls\<close>

text \<open>
  One constructor for each exported function of the package, with its arguments. The
  receiver of \<^verbatim>\<open>RecLock\<close> and \<^verbatim>\<open>RecUnlock\<close> is a handle: \<^verbatim>\<open>nil\<close>, or the address of a record
  object.
\<close>

datatype 'p Call =
    Call_ReadLock
  | Call_ReadUnlock
  | Call_WriteLock
  | Call_WriteUnlock
  | Call_RecLock "addr option"
  | Call_RecUnlock "addr option"
  | Call_AddRec "Key list" "'p option" bool
  | Call_ForceAddRec "Key list" "'p option"
  | Call_AddAndGetRec "Key list" "'p option" bool
  | Call_ForceAddAndGetRec "Key list" "'p option"
  | Call_ReAddRec Key Key
  | Call_ReAddAndGetRec Key Key
  | Call_AddRecWOLock "Key list" "'p option" bool
  | Call_ForceAddRecWOLock "Key list" "'p option"
  | Call_AddAndGetRecWOLock "Key list" "'p option" bool
  | Call_ForceAddAndGetRecWOLock "Key list" "'p option"
  | Call_ReAddRecWOLock Key Key
  | Call_ReAddAndGetRecWOLock Key Key
  | Call_DeleteKey Key
  | Call_DeleteRec Key
  | Call_DeleteRecWOLock Key
  | Call_DeleteCache
  | Call_DeleteCacheWOLock
  | Call_UpdateRecState Key bool
  | Call_UpdateRecStateWOLock Key bool
  | Call_GetRec Key
  | Call_GetRecWOLock Key
  | Call_GetDataRec Key
  | Call_GetDataRecWOLock Key
  | Call_DoesKeyExist Key
  | Call_DoesKeyExistWOLock Key
  | Call_GetCnt
  | Call_SetCnt int
  | Call_Load bool
  | Call_Iterate string bool
  | Call_LoadAndIterate bool bool
  | Call_AuxIterate string "('p HandlerArg \<Rightarrow> bool) option"

text \<open>
  How a call ended: it returned without an error (a \<^verbatim>\<open>nil\<close> error, or \<^verbatim>\<open>true\<close> where the
  function returns no error), it returned with one, it waits, or it panicked.
\<close>

datatype status = Succeeded | Failed | Blocked | Panicked

definition status_of :: "('r \<Rightarrow> bool) \<Rightarrow> 'r outcome \<times> 's \<Rightarrow> status \<times> 's" where
  "status_of ok res =
     (case res of
        (Returns x, s) \<Rightarrow> (if ok x then Succeeded else Failed, s)
      | (Blocks, s) \<Rightarrow> (Blocked, s)
      | (Panics, s) \<Rightarrow> (Panicked, s))"

text \<open>
  A method of \<^verbatim>\<open>*Rec\<close> called on a handle. A handle that is not \<^verbatim>\<open>nil\<close> points to a record
  object; an address beyond the memory is no handle, and the call is left out.
\<close>

definition on_handle :: "('p Rec option \<Rightarrow> unit outcome \<times> 'p Rec option) \<Rightarrow> addr option
    \<Rightarrow> 'p DataCache option \<Rightarrow> unit outcome \<times> 'p DataCache option" where
  "on_handle method pRec pDataCache =
     (case (pRec, pDataCache) of
        (Some a, Some dc) \<Rightarrow>
          (if a < length (recs dc)
           then (case on_rec method a dc of (r, dc') \<Rightarrow> (r, Some dc'))
           else (Returns (), pDataCache))
      | _ \<Rightarrow> (fst (method None), pDataCache))"

fun exec :: "'p Call \<Rightarrow> 'p DataCache option \<Rightarrow> status \<times> 'p DataCache option" where
  "exec Call_ReadLock s = status_of (\<lambda>_. True) (ReadLock s)"
| "exec Call_ReadUnlock s = status_of (\<lambda>_. True) (ReadUnlock s)"
| "exec Call_WriteLock s = status_of (\<lambda>_. True) (WriteLock s)"
| "exec Call_WriteUnlock s = status_of (\<lambda>_. True) (WriteUnlock s)"
| "exec (Call_RecLock h) s = status_of (\<lambda>_. True) (on_handle RecLock h s)"
| "exec (Call_RecUnlock h) s = status_of (\<lambda>_. True) (on_handle RecUnlock h s)"
| "exec (Call_AddRec ks p f) s = status_of (\<lambda>(n, e). e = None) (AddRec s ks p f)"
| "exec (Call_ForceAddRec ks p) s = status_of (\<lambda>(n, e). e = None) (ForceAddRec s ks p)"
| "exec (Call_AddAndGetRec ks p f) s = status_of (\<lambda>(n, r, e). e = None) (AddAndGetRec s ks p f)"
| "exec (Call_ForceAddAndGetRec ks p) s =
     status_of (\<lambda>(n, r, e). e = None) (ForceAddAndGetRec s ks p)"
| "exec (Call_ReAddRec k k') s = status_of (\<lambda>(n, e). e = None) (ReAddRec s k k')"
| "exec (Call_ReAddAndGetRec k k') s = status_of (\<lambda>(n, r, e). e = None) (ReAddAndGetRec s k k')"
| "exec (Call_AddRecWOLock ks p f) s = status_of (\<lambda>(n, e). e = None) (AddRecWOLock s ks p f)"
| "exec (Call_ForceAddRecWOLock ks p) s =
     status_of (\<lambda>(n, e). e = None) (ForceAddRecWOLock s ks p)"
| "exec (Call_AddAndGetRecWOLock ks p f) s =
     status_of (\<lambda>(n, r, e). e = None) (AddAndGetRecWOLock s ks p f)"
| "exec (Call_ForceAddAndGetRecWOLock ks p) s =
     status_of (\<lambda>(n, r, e). e = None) (ForceAddAndGetRecWOLock s ks p)"
| "exec (Call_ReAddRecWOLock k k') s = status_of (\<lambda>(n, e). e = None) (ReAddRecWOLock s k k')"
| "exec (Call_ReAddAndGetRecWOLock k k') s =
     status_of (\<lambda>(n, r, e). e = None) (ReAddAndGetRecWOLock s k k')"
| "exec (Call_DeleteKey k) s = status_of (\<lambda>e. e = None) (DeleteKey s k)"
| "exec (Call_DeleteRec k) s = status_of (\<lambda>(n, e). e = None) (DeleteRec s k)"
| "exec (Call_DeleteRecWOLock k) s = status_of (\<lambda>(b, n). b) (DeleteRecWOLock s k)"
| "exec Call_DeleteCache s = status_of (\<lambda>b. b) (DeleteCache s)"
| "exec Call_DeleteCacheWOLock s = status_of (\<lambda>b. b) (DeleteCacheWOLock s)"
| "exec (Call_UpdateRecState k b) s = status_of (\<lambda>b. b) (UpdateRecState s k b)"
| "exec (Call_UpdateRecStateWOLock k b) s = status_of (\<lambda>b. b) (UpdateRecStateWOLock s k b)"
| "exec (Call_GetRec k) s = status_of (\<lambda>(b, r). b) (GetRec s k)"
| "exec (Call_GetRecWOLock k) s = status_of (\<lambda>(b, r). b) (GetRecWOLock s k)"
| "exec (Call_GetDataRec k) s = status_of (\<lambda>(b, d). b) (GetDataRec s k)"
| "exec (Call_GetDataRecWOLock k) s = status_of (\<lambda>(b, d). b) (GetDataRecWOLock s k)"
| "exec (Call_DoesKeyExist k) s = status_of (\<lambda>b. b) (DoesKeyExist s k)"
| "exec (Call_DoesKeyExistWOLock k) s = status_of (\<lambda>b. b) (DoesKeyExistWOLock s k)"
| "exec Call_GetCnt s = status_of (\<lambda>(b, n). b) (GetCnt s)"
| "exec (Call_SetCnt v) s = status_of (\<lambda>(b, n). b) (SetCnt s v)"
| "exec (Call_Load l) s = status_of (\<lambda>(b, e). e = None) (Load s l)"
| "exec (Call_Iterate n i) s = status_of (\<lambda>(b, e). e = None) (Iterate s n i)"
| "exec (Call_LoadAndIterate l i) s = status_of (\<lambda>(b, e). e = None) (LoadAndIterate s l i)"
| "exec (Call_AuxIterate n h) s = status_of (\<lambda>(b, e). e = None) (AuxIterate s n h)"

text \<open>
  A sequence of calls on one store, each from the state the call before it left, with how
  each call ended. A call that waits or panics leaves the state it had reached, and the
  calls after it (of other threads) go on from there.
\<close>

fun run :: "'p Call list \<Rightarrow> 'p DataCache option \<Rightarrow> status list \<times> 'p DataCache option" where
  "run [] s = ([], s)"
| "run (c # cs) s =
     (case exec c s of (st, s') \<Rightarrow> (case run cs s' of (sts, s'') \<Rightarrow> (st # sts, s'')))"

text \<open>The adds that create a record, and the calls other than those and \<^verbatim>\<open>DeleteRec\<close>
  that assign \<open>cnt\<close>.\<close>

fun is_add :: "'p Call \<Rightarrow> bool" where
  "is_add (Call_AddRec ks p f) = True"
| "is_add (Call_ForceAddRec ks p) = True"
| "is_add (Call_AddAndGetRec ks p f) = True"
| "is_add (Call_ForceAddAndGetRec ks p) = True"
| "is_add (Call_AddRecWOLock ks p f) = True"
| "is_add (Call_ForceAddRecWOLock ks p) = True"
| "is_add (Call_AddAndGetRecWOLock ks p f) = True"
| "is_add (Call_ForceAddAndGetRecWOLock ks p) = True"
| "is_add _ = False"

fun is_DeleteRec :: "'p Call \<Rightarrow> bool" where
  "is_DeleteRec (Call_DeleteRec k) = True"
| "is_DeleteRec _ = False"

fun sets_cnt :: "'p Call \<Rightarrow> bool" where
  "sets_cnt (Call_SetCnt v) = True"
| "sets_cnt (Call_Load l) = True"
| "sets_cnt (Call_LoadAndIterate l i) = True"
| "sets_cnt (Call_DeleteRecWOLock k) = True"
| "sets_cnt _ = False"

text \<open>The number of calls of a kind in a sequence that ended with \<open>Succeeded\<close>.\<close>

definition successes :: "('p Call \<Rightarrow> bool) \<Rightarrow> 'p Call list \<Rightarrow> status list \<Rightarrow> nat" where
  "successes kind cs sts = length (filter (\<lambda>(c, st). kind c \<and> st = Succeeded) (zip cs sts))"

text \<open>
  The keys that map to the record at an address, and the two readings of "the keys of
  a record": every record the map reaches has exactly its \<open>KeyList\<close> mapped to it; every
  key of the map is in the \<open>KeyList\<close> of the record it maps to.
\<close>

definition keys_to :: "'p DataCache \<Rightarrow> addr \<Rightarrow> Key set" where
  "keys_to dc a = set (filter (\<lambda>k. map_of (cache dc) k = Some a) (map fst (cache dc)))"


definition alias_listed :: "'p DataCache \<Rightarrow> bool" where
  "alias_listed dc =
     list_all (\<lambda>(k, a). a < length (recs dc) \<and> k \<in> set (KeyList (recs dc ! a))) (cache dc)"

section \<open>Predicates of the statements\<close>

text \<open>Nobody holds the store lock; a key resolves to a record.\<close>

definition store_unlocked :: "'p DataCache \<Rightarrow> bool" where
  "store_unlocked dc = (\<not> writer (cacheLock dc) \<and> readers (cacheLock dc) = 0)"

definition resolves :: "'p DataCache \<Rightarrow> Key \<Rightarrow> bool" where
  "resolves dc k = (map_of (cache dc) k \<noteq> None)"

text \<open>
  Every entry of the map points to a record object whose lock, if it has one, is not held.
\<close>

definition records_unlocked :: "'p DataCache \<Rightarrow> bool" where
  "records_unlocked dc =
     list_all (\<lambda>(k, a). a < length (recs dc) \<and>
        (case pRecLock (recs dc ! a) of None \<Rightarrow> True | Some m \<Rightarrow> \<not> mutex_held m)) (cache dc)"

text \<open>
  A body that neither reads nor writes the store lock: it commutes with every assignment
  to \<open>cacheLock\<close>.
\<close>

definition oblivious :: "('p DataCache \<Rightarrow> 'r outcome \<times> 'p DataCache) \<Rightarrow> bool" where
  "oblivious body =
     (\<forall>dc. (\<forall>l. body (dc\<lparr>cacheLock := l\<rparr>) = (case body dc of (r, dc') \<Rightarrow> (r, dc'\<lparr>cacheLock := l\<rparr>)))
         \<and> cacheLock (snd (body dc)) = cacheLock dc)"

text \<open>
  A state that differs from another one only by entries removed from the map and by
  fields that are neither the map, nor a \<open>KeyList\<close>, nor the counter: what a call does
  that adds no key and assigns no counter.
\<close>

definition narrows :: "'p DataCache \<Rightarrow> 'p DataCache \<Rightarrow> bool" where
  "narrows d d' = (set (cache d') \<subseteq> set (cache d) \<and> map KeyList (recs d') = map KeyList (recs d) \<and>
      cnt d' = cnt d)"

text \<open>A property of stores that such a step keeps.\<close>

definition closed :: "('p DataCache \<Rightarrow> bool) \<Rightarrow> bool" where
  "closed Q = (\<forall>d d'. Q d \<longrightarrow> narrows d d' \<longrightarrow> Q d')"

text \<open>The four calls that map a record to one more key.\<close>

definition is_readd :: "'p Call \<Rightarrow> bool" where
  "is_readd c = (case c of Call_ReAddRec k k' \<Rightarrow> True | Call_ReAddAndGetRec k k' \<Rightarrow> True
     | Call_ReAddRecWOLock k k' \<Rightarrow> True | Call_ReAddAndGetRecWOLock k k' \<Rightarrow> True | _ \<Rightarrow> False)"

text \<open>What an add does to the counter, by how it ended; \<open>n\<close> is the counter before.\<close>

definition add_counts :: "int \<Rightarrow> status \<times> 'p DataCache \<Rightarrow> bool" where
  "add_counts n res = (case res of (st, d') \<Rightarrow>
     (st = Succeeded \<and> cnt d' = n + 1) \<or> ((st = Failed \<or> st = Blocked) \<and> cnt d' = n) \<or>
     st = Panicked)"

section \<open>Example stores\<close>

text \<open>
  A run on a store of numbers: a record is added under the keys "u1" and "e1", and gets
  the key "u2" as well.
\<close>

definition ex_fresh :: "nat DataCache option" where
  "ex_fresh = Create None None"

definition ex_added :: "nat DataCache option" where
  "ex_added = snd (AddRec ex_fresh [KStr ''u1'', KStr ''e1''] (Some 10) True)"

definition ex_readded :: "nat DataCache option" where
  "ex_readded = snd (ReAddRec ex_added (KStr ''u1'') (KStr ''u2''))"

text \<open>A store that holds one record under the key 0 and one under the key "a".\<close>

definition ex_two :: "nat DataCache option" where
  "ex_two = snd (AddRec (snd (AddRec ex_fresh [KInt 0] (Some 1) True)) [KStr ''a''] (Some 2) True)"

text \<open>
  A loader that returns one payload with two keys, a handler, and stores created with
  them.
\<close>

definition ex_loader :: "unit \<Rightarrow> bool \<times> nat Payload list" where
  "ex_loader u = (True, [\<lparr>Payload_KeyList = [KStr ''id1'', KStr ''name1''], Payload_PDataRec = Some 7\<rparr>])"

definition ex_handler :: "nat HandlerArg \<Rightarrow> bool" where
  "ex_handler x = True"

definition ex_callbacks :: "nat DataCache option" where
  "ex_callbacks = Create (Some ex_loader) (Some ex_handler)"

definition ex_loader_only :: "nat DataCache option" where
  "ex_loader_only = Create (Some ex_loader) None"

definition ex_loaded :: "nat DataCache option" where
  "ex_loaded = snd (Load ex_loader_only True)"


definition ex_counted :: "nat Call list" where
  "ex_counted =
     [Call_AddRec [KStr ''u1'', KStr ''e1''] (Some 10) True,
      Call_AddRec [KStr ''u1''] (Some 20) True,
      Call_AddAndGetRec [KStr ''u3''] (Some 30) True,
      Call_ReAddRec (KStr ''u1'') (KStr ''u2''),
      Call_DeleteRec (KStr ''e1'')]"

section \<open>The store lock around a body\<close>

lemma obliviousI:
  assumes "\<And>dc l. body (dc\<lparr>cacheLock := l\<rparr>) = (case body dc of (r, dc') \<Rightarrow> (r, dc'\<lparr>cacheLock := l\<rparr>))"
    and "\<And>dc. cacheLock (snd (body dc)) = cacheLock dc"
  shows "oblivious body"
  using assms by (simp add: oblivious_def)

lemma with_Lock_oblivious:
  assumes "oblivious body" and "store_unlocked dc"
  shows "with_Lock body dc =
     (case body dc of
        (Blocks, dc') \<Rightarrow> (Blocks, dc'\<lparr>cacheLock := (cacheLock dc)\<lparr>writer := True\<rparr>\<rparr>)
      | (r, dc') \<Rightarrow> (r, dc'))"
proof -
  obtain r dc' where b: "body dc = (r, dc')" by (cases "body dc")
  let ?l = "(cacheLock dc)\<lparr>writer := True\<rparr>"
  have b': "body (dc\<lparr>cacheLock := ?l\<rparr>) = (r, dc'\<lparr>cacheLock := ?l\<rparr>)"
    using assms(1) b by (simp add: oblivious_def)
  have c: "cacheLock dc' = cacheLock dc"
    using assms(1) b by (auto simp: oblivious_def dest: spec [of _ dc])
  have u: "dc'\<lparr>cacheLock := ?l\<lparr>writer := False\<rparr>\<rparr> = dc'"
    using assms(2) c by (simp add: store_unlocked_def)
  show ?thesis
    using assms(2) b b' u
    by (cases r) (simp_all add: with_Lock_def cacheLock_Lock_def cacheLock_Unlock_def
        RWMutex_Lock_def RWMutex_Unlock_def deferred_def store_unlocked_def)
qed

lemma with_Lock_Returns:
  assumes "oblivious body" and "store_unlocked dc"
  shows "fst (with_Lock body dc) = Returns x \<longleftrightarrow> fst (body dc) = Returns x"
    and "fst (body dc) = Returns x \<Longrightarrow> snd (with_Lock body dc) = snd (body dc)"
  using with_Lock_oblivious [OF assms]
  by (cases "body dc"; cases "fst (body dc)"; simp)+

lemmas rec_lock_defs = pRecLock_Lock_def pRecLock_Unlock_def Mutex_Lock_def Mutex_Unlock_def

lemma oblivious_AddRecWOLock_body: "oblivious (AddRecWOLock_body keyList pRec f)"
  by (rule obliviousI)
     (simp_all add: AddRecWOLock_body_def add_record_def Let_def split: option.splits)

lemma oblivious_AddAndGetRecWOLock_body: "oblivious (AddAndGetRecWOLock_body ks p f)"
  by (rule obliviousI)
     (simp_all add: AddAndGetRecWOLock_body_def add_record_def get_locked_def rec_lock_defs
        split: list.splits option.splits)


section \<open>The example stores, evaluated\<close>

lemmas eval_defs = Create_def AddRec_def AddRecWOLock_body_def with_Lock_def cacheLock_Lock_def
  cacheLock_Unlock_def RWMutex_Lock_def RWMutex_Unlock_def deferred_def first_existing_def
  add_record_def store_keys_def new_Rec_def ReAddRec_def ReAddRecWOLock_body_def readd_def

lemma ex_added_eq:
  "ex_added = Some \<lparr>cacheLock = \<lparr>writer = False, readers = 0\<rparr>,
     cache = [(KStr ''u1'', 0), (KStr ''e1'', 0)], loadfn = None, reciteratefn = None, cnt = 1,
     singletonFlag = False,
     recs = [\<lparr>KeyList = [KStr ''u1'', KStr ''e1''], PDataRec = Some 10, isActive = True,
              refcnt = 0, pRecLock = Some 0, pUnlockRecLock = None\<rparr>],
     calls = []\<rparr>"
  by (simp add: ex_added_def ex_fresh_def eval_defs)

lemma ex_readded_eq:
  "ex_readded = Some \<lparr>cacheLock = \<lparr>writer = False, readers = 0\<rparr>,
     cache = [(KStr ''u1'', 0), (KStr ''e1'', 0), (KStr ''u2'', 0)], loadfn = None,
     reciteratefn = None, cnt = 1, singletonFlag = False,
     recs = [\<lparr>KeyList = [KStr ''u1'', KStr ''e1'', KStr ''u2''], PDataRec = Some 10,
              isActive = True, refcnt = 0, pRecLock = Some 0, pUnlockRecLock = None\<rparr>],
     calls = []\<rparr>"
  by (simp add: ex_readded_def ex_added_eq eval_defs)

lemma ex_readded_facts:
  "store_unlocked (the ex_readded)" "records_unlocked (the ex_readded)"
  by (simp_all add: ex_readded_eq store_unlocked_def records_unlocked_def mutex_held_def mutexLocked_def)

section \<open>The record lock\<close>

lemma mutex_held_odd: "mutex_held m \<longleftrightarrow> odd m"
  by (simp add: mutex_held_def mutexLocked_def and_one_eq odd_iff_mod_2_eq_one)

lemma Mutex_Lock_Unlock: "\<not> mutex_held m \<Longrightarrow> (m OR mutexLocked) - mutexLocked = m"
  by (simp add: mutex_held_odd mutexLocked_def or_one_eq)

lemma held_after_Lock: "\<not> mutex_held m \<Longrightarrow> mutex_held (m OR mutexLocked)"
  by (simp add: mutex_held_odd mutexLocked_def or_one_eq)

lemma free_after_Unlock: "mutex_held m \<Longrightarrow> \<not> mutex_held (m - mutexLocked)"
  by (simp add: mutex_held_odd mutexLocked_def)

lemma Mutex_Lock_simps:
  "Mutex_Lock m = (if mutex_held m then None else Some (m OR mutexLocked))"
  "Mutex_Unlock m = (if mutex_held m then Some (m - mutexLocked) else None)"
  by (simp_all add: Mutex_Lock_def Mutex_Unlock_def mutex_held_def)

lemma rec_same: "pRecLock r = Some m \<Longrightarrow> r\<lparr>pRecLock := Some m\<rparr> = r"
  by (cases r) auto

lemma lock_unlock_rec:
  assumes "pRecLock (recs dc ! a) = Some m" and "\<not> mutex_held m"
  shows "pRecLock_Lock a dc =
      (Returns (), dc\<lparr>recs := (recs dc)[a := (recs dc ! a)\<lparr>pRecLock := Some (m OR mutexLocked)\<rparr>]\<rparr>)"
  using assms by (simp add: pRecLock_Lock_def Mutex_Lock_simps)


text \<open>
  C9. \<^verbatim>\<open>RecUnlock\<close> on a \<^verbatim>\<open>nil\<close> record, on a record whose lock is \<^verbatim>\<open>nil\<close>, and on a record
  whose lock is not held returns and leaves the record, its lock included, as it was;
  nothing panics. On a record whose lock is held it returns with the lock released and
  nothing else changed.
\<close>

theorem RecUnlock_not_held_noop:
  fixes r :: "'p Rec"
  shows
  "RecUnlock (None :: 'p Rec option) = (Returns (), None) \<and>
   (pRecLock r = None \<longrightarrow> RecUnlock (Some r) = (Returns (), Some r)) \<and>
   (\<forall>m. pRecLock r = Some m \<and> \<not> mutex_held m \<longrightarrow> RecUnlock (Some r) = (Returns (), Some r)) \<and>
   (\<forall>m. pRecLock r = Some m \<and> mutex_held m \<longrightarrow>
      (\<exists>m'. RecUnlock (Some r) = (Returns (), Some (r\<lparr>pRecLock := Some m'\<rparr>)) \<and> \<not> mutex_held m'))"
  by (auto simp: RecUnlock_def Mutex_Lock_simps Let_def free_after_Unlock
      simp flip: mutex_held_def)

theorem RecUnlock_not_held_noop_witness:
  "pRecLock (new_Rec [KStr ''u1''] (Some (10::nat))) = Some 0 \<and> \<not> mutex_held 0 \<and>
   RecUnlock (Some (new_Rec [KStr ''u1''] (Some (10::nat)))) =
     (Returns (), Some (new_Rec [KStr ''u1''] (Some 10))) \<and>
   pRecLock ((new_Rec [KStr ''u1''] (Some (10::nat)))\<lparr>pRecLock := Some 1\<rparr>) = Some 1 \<and>
   mutex_held 1 \<and>
   RecUnlock (Some ((new_Rec [KStr ''u1''] (Some (10::nat)))\<lparr>pRecLock := Some 1\<rparr>)) =
     (Returns (), Some (new_Rec [KStr ''u1''] (Some 10))) \<and>
   pRecLock ((new_Rec [KStr ''u1''] (Some (10::nat)))\<lparr>pRecLock := None\<rparr>) = None \<and>
   RecUnlock (Some ((new_Rec [KStr ''u1''] (Some (10::nat)))\<lparr>pRecLock := None\<rparr>)) =
     (Returns (), Some ((new_Rec [KStr ''u1''] (Some 10))\<lparr>pRecLock := None\<rparr>))"
  using RecUnlock_not_held_noop [of "new_Rec [KStr ''u1''] (Some (10::nat))"]
    RecUnlock_not_held_noop [of "(new_Rec [KStr ''u1''] (Some (10::nat)))\<lparr>pRecLock := Some 1\<rparr>"]
    RecUnlock_not_held_noop [of "(new_Rec [KStr ''u1''] (Some (10::nat)))\<lparr>pRecLock := None\<rparr>"]
  by (simp add: new_Rec_def mutex_held_def mutexLocked_def RecUnlock_def Mutex_Unlock_def)

section \<open>Adds with the existence check\<close>

lemma first_existing_None: "first_existing ks c = None \<longleftrightarrow> (\<forall>k\<in>set ks. map_of c k = None)"
  by (auto simp: first_existing_def find_None_iff)

lemma first_existing_Some: "first_existing ks c = Some k \<Longrightarrow> k \<in> set ks \<and> map_of c k \<noteq> None"
  by (auto simp: first_existing_def find_Some_iff)

lemma get_locked_no_error: "fst (get_locked ks dc) \<noteq> Returns (n, r, Some e)"
  by (simp add: get_locked_def rec_lock_defs split: list.splits option.splits)

lemma AddRecWOLock_body_check:
  "((\<exists>k. fst (AddRecWOLock_body ks p True dc) = Returns (- 1, Some (KeyExists k))) \<longleftrightarrow>
      (\<exists>k\<in>set ks. resolves dc k)) \<and>
   ((\<exists>k\<in>set ks. resolves dc k) \<longrightarrow> snd (AddRecWOLock_body ks p True dc) = dc)"
proof (cases "first_existing ks (cache dc)")
  case None
  then have "\<forall>k\<in>set ks. map_of (cache dc) k = None"
    by (simp add: first_existing_None)
  then show ?thesis
    by (auto simp: AddRecWOLock_body_def resolves_def None Let_def)
next
  case (Some k)
  then show ?thesis
    using first_existing_Some [OF Some]
    by (auto simp: AddRecWOLock_body_def resolves_def)
qed

lemma AddAndGetRecWOLock_body_check:
  "((\<exists>k. fst (AddAndGetRecWOLock_body ks p True dc) = Returns (- 1, None, Some (KeyExists k))) \<longleftrightarrow>
      (\<exists>k\<in>set ks. resolves dc k)) \<and>
   ((\<exists>k\<in>set ks. resolves dc k) \<longrightarrow> snd (AddAndGetRecWOLock_body ks p True dc) = dc)"
proof (cases "first_existing ks (cache dc)")
  case None
  then have "\<forall>k\<in>set ks. map_of (cache dc) k = None"
    by (simp add: first_existing_None)
  then show ?thesis
    by (auto simp: AddAndGetRecWOLock_body_def resolves_def None get_locked_no_error)
next
  case (Some k)
  then show ?thesis
    using first_existing_Some [OF Some]
    by (auto simp: AddAndGetRecWOLock_body_def resolves_def)
qed

text \<open>
  C5. With a payload that is not \<^verbatim>\<open>nil\<close> and the existence check switched on,
  \<^verbatim>\<open>AddRecWOLock\<close> and \<^verbatim>\<open>AddAndGetRecWOLock\<close>, and on a store whose lock is free \<^verbatim>\<open>AddRec\<close>
  and \<^verbatim>\<open>AddAndGetRec\<close>, return the error "Key ... exists." exactly when one of the keys
  supplied resolves to a record; and then the store they leave is the store they found:
  the map, the counter and every record object are unchanged.
\<close>

theorem add_fails_KeyExists_iff:
  assumes "pRec \<noteq> None"
  shows
   "((\<exists>k. fst (AddRecWOLock (Some dc) keyList pRec True) = Returns (- 1, Some (KeyExists k))) \<longleftrightarrow>
       (\<exists>k\<in>set keyList. resolves dc k)) \<and>
    ((\<exists>k\<in>set keyList. resolves dc k) \<longrightarrow>
       snd (AddRecWOLock (Some dc) keyList pRec True) = Some dc) \<and>
    ((\<exists>k. fst (AddAndGetRecWOLock (Some dc) keyList pRec True) =
          Returns (- 1, None, Some (KeyExists k))) \<longleftrightarrow>
       (\<exists>k\<in>set keyList. resolves dc k)) \<and>
    ((\<exists>k\<in>set keyList. resolves dc k) \<longrightarrow>
       snd (AddAndGetRecWOLock (Some dc) keyList pRec True) = Some dc) \<and>
    (store_unlocked dc \<longrightarrow>
      ((\<exists>k. fst (AddRec (Some dc) keyList pRec True) = Returns (- 1, Some (KeyExists k))) \<longleftrightarrow>
         (\<exists>k\<in>set keyList. resolves dc k)) \<and>
      ((\<exists>k\<in>set keyList. resolves dc k) \<longrightarrow>
         snd (AddRec (Some dc) keyList pRec True) = Some dc) \<and>
      ((\<exists>k. fst (AddAndGetRec (Some dc) keyList pRec True) =
            Returns (- 1, None, Some (KeyExists k))) \<longleftrightarrow>
         (\<exists>k\<in>set keyList. resolves dc k)) \<and>
      ((\<exists>k\<in>set keyList. resolves dc k) \<longrightarrow>
         snd (AddAndGetRec (Some dc) keyList pRec True) = Some dc))"
proof -
  let ?ex = "\<exists>k\<in>set keyList. resolves dc k"
  note a = AddRecWOLock_body_check [of keyList pRec dc]
  note g = AddAndGetRecWOLock_body_check [of keyList pRec dc]
  from assms obtain y where y: "pRec = Some y" by auto
  have wo:
    "fst (AddRecWOLock (Some dc) keyList pRec True) = fst (AddRecWOLock_body keyList pRec True dc)"
    "snd (AddRecWOLock (Some dc) keyList pRec True) =
       Some (snd (AddRecWOLock_body keyList pRec True dc))"
    "fst (AddAndGetRecWOLock (Some dc) keyList pRec True) =
       fst (AddAndGetRecWOLock_body keyList pRec True dc)"
    "snd (AddAndGetRecWOLock (Some dc) keyList pRec True) =
       Some (snd (AddAndGetRecWOLock_body keyList pRec True dc))"
    by (simp_all add: y AddRecWOLock_def AddAndGetRecWOLock_def split: prod.splits)
  have lk:
    "fst (AddRec (Some dc) keyList pRec True) =
       fst (with_Lock (AddRecWOLock_body keyList pRec True) dc)"
    "snd (AddRec (Some dc) keyList pRec True) =
       Some (snd (with_Lock (AddRecWOLock_body keyList pRec True) dc))"
    "fst (AddAndGetRec (Some dc) keyList pRec True) =
       fst (with_Lock (AddAndGetRecWOLock_body keyList pRec True) dc)"
    "snd (AddAndGetRec (Some dc) keyList pRec True) =
       Some (snd (with_Lock (AddAndGetRecWOLock_body keyList pRec True) dc))"
    by (simp_all add: y AddRec_def AddAndGetRec_def split: prod.splits)
  have p1: "(\<exists>k. fst (AddRecWOLock (Some dc) keyList pRec True) =
      Returns (- 1, Some (KeyExists k))) \<longleftrightarrow> ?ex"
    using a by (simp add: wo)
  have p2: "?ex \<longrightarrow> snd (AddRecWOLock (Some dc) keyList pRec True) = Some dc"
    using a by (simp add: wo)
  have p3: "(\<exists>k. fst (AddAndGetRecWOLock (Some dc) keyList pRec True) =
      Returns (- 1, None, Some (KeyExists k))) \<longleftrightarrow> ?ex"
    using g by (simp add: wo)
  have p4: "?ex \<longrightarrow> snd (AddAndGetRecWOLock (Some dc) keyList pRec True) = Some dc"
    using g by (simp add: wo)
  have p5: "(\<exists>k. fst (AddRec (Some dc) keyList pRec True) =
      Returns (- 1, Some (KeyExists k))) \<longleftrightarrow> ?ex"
    if "store_unlocked dc"
    using a by (simp add: lk with_Lock_Returns(1) [OF oblivious_AddRecWOLock_body that])
  have p6: "snd (AddRec (Some dc) keyList pRec True) = Some dc"
    if u: "store_unlocked dc" and e: "?ex"
  proof -
    obtain k where
      "fst (AddRecWOLock_body keyList pRec True dc) = Returns (- 1, Some (KeyExists k))"
      using a e by blast
    then show ?thesis
      using a e by (simp add: lk with_Lock_Returns(2) [OF oblivious_AddRecWOLock_body u])
  qed
  have p7: "(\<exists>k. fst (AddAndGetRec (Some dc) keyList pRec True) =
      Returns (- 1, None, Some (KeyExists k))) \<longleftrightarrow> ?ex"
    if "store_unlocked dc"
    using g by (simp add: lk with_Lock_Returns(1) [OF oblivious_AddAndGetRecWOLock_body that])
  have p8: "snd (AddAndGetRec (Some dc) keyList pRec True) = Some dc"
    if u: "store_unlocked dc" and e: "?ex"
  proof -
    obtain k where
      "fst (AddAndGetRecWOLock_body keyList pRec True dc) =
         Returns (- 1, None, Some (KeyExists k))"
      using g e by blast
    then show ?thesis
      using g e by (simp add: lk with_Lock_Returns(2) [OF oblivious_AddAndGetRecWOLock_body u])
  qed
  show ?thesis
    using p1 p2 p3 p4 p5 p6 p7 p8 by blast
qed

theorem add_fails_KeyExists_iff_witness:
  "Some (20::nat) \<noteq> None \<and> store_unlocked (the ex_added) \<and>
   (\<exists>k\<in>set [KStr ''u1'']. resolves (the ex_added) k) \<and>
   fst (AddRec ex_added [KStr ''u1''] (Some 20) True) =
     Returns (- 1, Some (KeyExists (KStr ''u1''))) \<and>
   snd (AddRec ex_added [KStr ''u1''] (Some 20) True) = ex_added"
  using add_fails_KeyExists_iff [of "Some 20" "the ex_added" "[KStr ''u1'']"]
  by (simp add: ex_added_eq store_unlocked_def resolves_def eval_defs)

section \<open>Mapping a record to one more key\<close>




section \<open>Deleting a record, deleting all\<close>




lemma records_unlocked_iff:
  "records_unlocked dc \<longleftrightarrow> (\<forall>(k, a)\<in>set (cache dc). a < length (recs dc) \<and>
        (case pRecLock (recs dc ! a) of None \<Rightarrow> True | Some m \<Rightarrow> \<not> mutex_held m))"
  by (simp add: records_unlocked_def list_all_iff)

lemma DeleteCache_step:
  assumes "a < length (recs dc)" and "pRecLock (recs dc ! a) = Some m" and "\<not> mutex_held m"
  shows "pRecLock_Lock a dc = (Returns (), dc\<lparr>recs := (recs dc)[a := (recs dc ! a)\<lparr>pRecLock := Some (m OR mutexLocked)\<rparr>]\<rparr>)"
    and "pRecLock_Unlock a (dc\<lparr>recs := (recs dc)[a := (recs dc ! a)\<lparr>pRecLock := Some (m OR mutexLocked)\<rparr>], cache := c\<rparr>)
           = (Returns (), dc\<lparr>cache := c\<rparr>)"
  using assms
  by (simp_all add: lock_unlock_rec pRecLock_Unlock_def Mutex_Lock_simps held_after_Lock
      Mutex_Lock_Unlock rec_same)

lemma DeleteCache_loop_unlocked:
  assumes "\<forall>(k, a)\<in>set es. a < length (recs dc) \<and>
        (case pRecLock (recs dc ! a) of None \<Rightarrow> True | Some m \<Rightarrow> \<not> mutex_held m)"
  shows "DeleteCache_loop es dc = (Returns (), dc\<lparr>cache := delete_keys (map fst es) (cache dc)\<rparr>)"
  using assms
proof (induction es arbitrary: dc)
  case Nil
  then show ?case by (simp add: delete_keys_def)
next
  case (Cons e es)
  obtain key prec where e: "e = (key, prec)" by (cases e)
  let ?dc' = "dc\<lparr>cache := AList.delete key (cache dc)\<rparr>"
  have rest: "DeleteCache_loop es ?dc' = (Returns (), ?dc'\<lparr>cache := delete_keys (map fst es) (cache ?dc')\<rparr>)"
    using Cons.prems by (intro Cons.IH) auto
  show ?case
  proof (cases "pRecLock (recs dc ! prec)")
    case None
    then show ?thesis using rest by (simp add: e delete_keys_def)
  next
    case (Some m)
    then have "prec < length (recs dc)" "\<not> mutex_held m"
      using Cons.prems by (auto simp: e)
    note st = DeleteCache_step [OF this(1) Some this(2)]
    show ?thesis using rest Some by (simp add: e st delete_keys_def)
  qed
qed

lemma delete_keys_all: "set (map fst c) \<subseteq> set ks \<Longrightarrow> delete_keys ks c = []"
proof (induction ks arbitrary: c)
  case Nil
  then show ?case by (simp add: delete_keys_def)
next
  case (Cons k ks)
  have "set (map fst (AList.delete k c)) \<subseteq> set ks"
    using Cons.prems by (auto simp: AList.delete_keys)
  from Cons.IH [OF this] show ?case by (simp add: delete_keys_def)
qed


text \<open>
  C10. When no record of the map has its lock held, \<^verbatim>\<open>DeleteCacheWOLock\<close>, and on a store
  whose lock is free \<^verbatim>\<open>DeleteCache\<close>, return \<^verbatim>\<open>true\<close> and leave the store with an empty
  map and every other field as it was, \<open>cnt\<close> included: \<^verbatim>\<open>GetCnt\<close> on the emptied store
  returns the count from before.
\<close>

theorem DeleteCache_keeps_cnt:
  assumes "records_unlocked dc"
  shows "DeleteCacheWOLock (Some dc) = (Returns True, Some (dc\<lparr>cache := []\<rparr>)) \<and>
    (store_unlocked dc \<longrightarrow>
       DeleteCache (Some dc) = (Returns True, Some (dc\<lparr>cache := []\<rparr>)) \<and>
       GetCnt (Some (dc\<lparr>cache := []\<rparr>)) = (Returns (True, cnt dc), Some (dc\<lparr>cache := []\<rparr>)))"
proof -
  have loop: "DeleteCache_loop (cache dc') dc' = (Returns (), dc'\<lparr>cache := []\<rparr>)"
    if "records_unlocked dc'" for dc' :: "'a DataCache"
    using DeleteCache_loop_unlocked [of "cache dc'" dc'] that
    by (simp add: records_unlocked_iff delete_keys_all)
  have wo: "DeleteCacheWOLock (Some dc) = (Returns True, Some (dc\<lparr>cache := []\<rparr>))"
    using loop [OF assms] by (simp add: DeleteCacheWOLock_def DeleteCacheWOLock_body_def)
  have lk: "DeleteCache (Some dc) = (Returns True, Some (dc\<lparr>cache := []\<rparr>))"
    and gc: "GetCnt (Some (dc\<lparr>cache := []\<rparr>)) = (Returns (True, cnt dc), Some (dc\<lparr>cache := []\<rparr>))"
    if u: "store_unlocked dc"
  proof -
    let ?dc1 = "dc\<lparr>cacheLock := (cacheLock dc)\<lparr>writer := True\<rparr>\<rparr>"
    have "records_unlocked ?dc1"
      using assms by (simp add: records_unlocked_def)
    from loop [OF this] show "DeleteCache (Some dc) = (Returns True, Some (dc\<lparr>cache := []\<rparr>))"
      using u
      by (simp add: DeleteCache_def cacheLock_Lock_def cacheLock_Unlock_def
        RWMutex_Lock_def RWMutex_Unlock_def store_unlocked_def)
    show "GetCnt (Some (dc\<lparr>cache := []\<rparr>)) = (Returns (True, cnt dc), Some (dc\<lparr>cache := []\<rparr>))"
      using u
      by (simp add: GetCnt_def with_Lock_def deferred_def cacheLock_Lock_def cacheLock_Unlock_def
        RWMutex_Lock_def RWMutex_Unlock_def store_unlocked_def)
  qed
  show ?thesis using wo lk gc by blast
qed

theorem DeleteCache_keeps_cnt_witness:
  "records_unlocked (the ex_readded) \<and> store_unlocked (the ex_readded) \<and>
   fst (DeleteCache ex_readded) = Returns True \<and>
   cache (the (snd (DeleteCache ex_readded))) = [] \<and>
   fst (GetCnt (snd (DeleteCache ex_readded))) = Returns (True, 1)"
  using DeleteCache_keeps_cnt [of "the ex_readded"]
  by (simp add: ex_readded_facts) (simp add: ex_readded_eq)

section \<open>Forced adds and load-time sequences\<close>

lemma ex_two_eq: "ex_two = Some \<lparr>cacheLock = \<lparr>writer = False, readers = 0\<rparr>,
     cache = [(KInt 0, 0), (KStr ''a'', 1)], loadfn = None, reciteratefn = None, cnt = 2,
     singletonFlag = False,
     recs = [\<lparr>KeyList = [KInt 0], PDataRec = Some 1, isActive = True,
              refcnt = 0, pRecLock = Some 0, pUnlockRecLock = None\<rparr>,
             \<lparr>KeyList = [KStr ''a''], PDataRec = Some 2, isActive = True,
              refcnt = 0, pRecLock = Some 0, pUnlockRecLock = None\<rparr>],
     calls = []\<rparr>"
  by (simp add: ex_two_def ex_fresh_def eval_defs)

text \<open>
  C2. \<^verbatim>\<open>ForceAddRec\<close> and \<^verbatim>\<open>ForceAddRecWOLock\<close> on the store with the keys 0 and "a", called
  with the key list ["a"]: "a" is in the map, at position 0 of the list, so the key that
  is deleted is the \<^verbatim>\<open>int\<close> 0, which is not in the list supplied; after the call the key
  0 is gone from the map.
\<close>

theorem ForceAddRec_deletes_index_key:
  "map_of (cache (the ex_two)) (KInt 0) = Some 0 \<and> KInt 0 \<notin> set [KStr ''a''] \<and>
   fst (ForceAddRec ex_two [KStr ''a''] (Some 3)) = Returns (3, None) \<and>
   map_of (cache (the (snd (ForceAddRec ex_two [KStr ''a''] (Some 3))))) (KInt 0) = None \<and>
   fst (ForceAddRecWOLock ex_two [KStr ''a''] (Some 3)) = Returns (3, None) \<and>
   map_of (cache (the (snd (ForceAddRecWOLock ex_two [KStr ''a''] (Some 3))))) (KInt 0) = None"
  by (simp add: ex_two_eq ForceAddRec_def ForceAddRecWOLock_def ForceAddRecWOLock_body_def
      displace_def eval_defs)

lemmas load_defs = Load_def Load_body_def Load_deferred_def load_records_def load_record_def
  Iterate_def Iterate_body_def Iterate_deferred_def iterate_records_def
  LoadAndIterate_def LoadAndIterate_body_def

text \<open>
  C3, as stated, fails: the loader returns one payload with two keys; \<^verbatim>\<open>LoadAndIterate\<close>,
  and \<^verbatim>\<open>Load\<close> followed by \<^verbatim>\<open>Iterate\<close>, succeed with one record created and two calls of
  the handler, both with that record's payload.
\<close>

theorem Iterate_once_per_record_counterexample:
  "fst (LoadAndIterate ex_callbacks True True) = Returns (True, None) \<and>
   length (recs (the (snd (LoadAndIterate ex_callbacks True True)))) = 1 \<and>
   cnt (the (snd (LoadAndIterate ex_callbacks True True))) = 1 \<and>
   calls (the (snd (LoadAndIterate ex_callbacks True True))) = [ArgPayload (Some 7), ArgPayload (Some 7)] \<and>
   fst (Load ex_callbacks True) = Returns (True, None) \<and>
   fst (Iterate (snd (Load ex_callbacks True)) ''c'' True) = Returns (True, None) \<and>
   length (recs (the (snd (Iterate (snd (Load ex_callbacks True)) ''c'' True)))) = 1 \<and>
   calls (the (snd (Iterate (snd (Load ex_callbacks True)) ''c'' True))) = [ArgPayload (Some 7), ArgPayload (Some 7)]"
  by (simp add: ex_callbacks_def ex_loader_def load_defs eval_defs)

text \<open>
  C4, as stated, fails: on a store created with a loader and an iterator, a second
  \<^verbatim>\<open>Load\<close> succeeds and loads again (a second record object is created).
\<close>

theorem Load_twice_counterexample:
  "fst (Load ex_callbacks True) = Returns (True, None) \<and>
   fst (Load (snd (Load ex_callbacks True)) True) = Returns (True, None) \<and>
   length (recs (the (snd (Load ex_callbacks True)))) = 1 \<and>
   length (recs (the (snd (Load (snd (Load ex_callbacks True)) True)))) = 2"
  by (simp add: ex_callbacks_def ex_loader_def load_defs eval_defs)

lemma fold_load_record_frame:
  "cacheLock (fold load_record rl dc) = cacheLock dc"
  "reciteratefn (fold load_record rl dc) = reciteratefn dc"
  "loadfn (fold load_record rl dc) = loadfn dc"
  "singletonFlag (fold load_record rl dc) = singletonFlag dc"
  "calls (fold load_record rl dc) = calls dc"
  by (induction rl arbitrary: dc) (simp_all add: load_record_def)

lemma Load_body_frame:
  "\<exists>r dc0. Load_body l dc = (Returns r, dc0) \<and> cacheLock dc0 = cacheLock dc \<and>
     reciteratefn dc0 = reciteratefn dc \<and> singletonFlag dc0 = singletonFlag dc"
  by (auto simp: Load_body_def load_records_def fold_load_record_frame
      split: option.splits prod.splits)

lemma Load_locked:
  assumes "store_unlocked dc"
  shows "Load (Some dc) l =
     (case Load_body l (dc\<lparr>cacheLock := (cacheLock dc)\<lparr>writer := True\<rparr>\<rparr>) of
        (r, dc0) \<Rightarrow>
          (r, Some ((if reciteratefn dc0 = None then dc0\<lparr>singletonFlag := True\<rparr> else dc0)
                     \<lparr>cacheLock := cacheLock dc\<rparr>)))"
proof -
  let ?dcl = "dc\<lparr>cacheLock := (cacheLock dc)\<lparr>writer := True\<rparr>\<rparr>"
  obtain r dc0 where b: "Load_body l ?dcl = (Returns r, dc0)" "cacheLock dc0 = cacheLock ?dcl"
    using Load_body_frame [of l ?dcl] by auto
  have u: "(cacheLock dc)\<lparr>writer := False\<rparr> = cacheLock dc"
    using assms by (simp add: store_unlocked_def)
  show ?thesis
    using assms b u
    by (simp add: Load_def cacheLock_Lock_def RWMutex_Lock_def store_unlocked_def deferred_def
        Load_deferred_def cacheLock_Unlock_def RWMutex_Unlock_def)
qed

text \<open>
  C4, amended. On a store whose lock is free, \<^verbatim>\<open>Load\<close> returns and leaves the lock free.
  When no iterator is registered, the one-shot flag is set afterwards, and a second
  \<^verbatim>\<open>Load\<close> returns the error "Already executed load-time sequence." and leaves the store
  as it was. When an iterator is registered, \<^verbatim>\<open>Load\<close> leaves the flag as it found it.
\<close>

theorem Load_twice_AlreadyLoaded:
  assumes "store_unlocked dc"
  shows "\<exists>r dc1. Load (Some dc) isLoaderProvided = (Returns r, Some dc1) \<and> store_unlocked dc1 \<and>
     (reciteratefn dc = None \<longrightarrow>
        singletonFlag dc1 \<and>
        Load (Some dc1) isLoaderProvided' = (Returns (False, Some AlreadyExecuted), Some dc1)) \<and>
     (reciteratefn dc \<noteq> None \<longrightarrow> singletonFlag dc1 = singletonFlag dc)"
proof -
  let ?dcl = "dc\<lparr>cacheLock := (cacheLock dc)\<lparr>writer := True\<rparr>\<rparr>"
  obtain r dc0 where b: "Load_body isLoaderProvided ?dcl = (Returns r, dc0)"
    and k: "cacheLock dc0 = cacheLock ?dcl" "reciteratefn dc0 = reciteratefn dc"
      "singletonFlag dc0 = singletonFlag dc"
    using Load_body_frame [of isLoaderProvided ?dcl] by auto
  let ?dc1 = "(if reciteratefn dc0 = None then dc0\<lparr>singletonFlag := True\<rparr> else dc0)
                \<lparr>cacheLock := cacheLock dc\<rparr>"
  have first: "Load (Some dc) isLoaderProvided = (Returns r, Some ?dc1)"
    using Load_locked [OF assms, of isLoaderProvided] b by simp
  have u1: "store_unlocked ?dc1"
    using assms by (simp add: store_unlocked_def)
  have second: "Load (Some ?dc1) isLoaderProvided' = (Returns (False, Some AlreadyExecuted), Some ?dc1)"
    if "reciteratefn dc = None"
  proof -
    have "?dc1\<lparr>cacheLock := cacheLock ?dc1\<rparr> = ?dc1" by simp
    then show ?thesis
      using Load_locked [OF u1, of isLoaderProvided'] that k
      by (simp add: Load_body_def)
  qed
  show ?thesis
    using first u1 second k by (intro exI [of _ r] exI [of _ ?dc1]) auto
qed

theorem Load_twice_AlreadyLoaded_witness:
  "store_unlocked (the ex_loader_only) \<and> reciteratefn (the ex_loader_only) = None \<and>
   fst (Load ex_loader_only True) = Returns (True, None) \<and>
   singletonFlag (the ex_loaded) \<and>
   Load ex_loaded True = (Returns (False, Some AlreadyExecuted), ex_loaded) \<and>
   store_unlocked (the ex_callbacks) \<and> reciteratefn (the ex_callbacks) \<noteq> None \<and>
   singletonFlag (the (snd (Load ex_callbacks True))) = singletonFlag (the ex_callbacks)"
  using Load_twice_AlreadyLoaded [of "the ex_loader_only" True True]
    Load_twice_AlreadyLoaded [of "the ex_callbacks" True True]
  by (simp add: ex_loaded_def ex_loader_only_def ex_callbacks_def ex_loader_def
      store_unlocked_def load_defs eval_defs)

lemma keys_to_eq: "keys_to dc a = {k \<in> set (map fst (cache dc)). map_of (cache dc) k = Some a}"
  by (auto simp: keys_to_def)

lemma entries_per_record:
  assumes "distinct (map fst c)"
  shows "length (filter (\<lambda>(key, pRec). pRec = a) c) = card {k \<in> set (map fst c). map_of c k = Some a}"
proof -
  let ?F = "filter (\<lambda>(key, pRec). pRec = a) c"
  have d: "distinct (map fst ?F)"
    using assms by (simp add: distinct_map_filter)
  have "{k \<in> set (map fst c). map_of c k = Some a} = set (map fst ?F)"
    using assms by (auto simp: image_iff)
  then have "card {k \<in> set (map fst c). map_of c k = Some a} = length (map fst ?F)"
    using d by (simp only: distinct_card)
  then show ?thesis by simp
qed

lemma distinct_store_keys:
  "distinct (map fst c) \<Longrightarrow> distinct (map fst (store_keys ks a c))"
  unfolding store_keys_def
  by (induction ks arbitrary: c) (simp_all add: distinct_update)

lemma distinct_fold_load_record:
  "distinct (map fst (cache dc)) \<Longrightarrow> distinct (map fst (cache (fold load_record rl dc)))"
  by (induction rl arbitrary: dc) (simp_all add: load_record_def distinct_store_keys)

lemma load_record_lock:
  "load_record pl (dc\<lparr>cacheLock := l\<rparr>) = (load_record pl dc)\<lparr>cacheLock := l\<rparr>"
  by (simp add: load_record_def)

lemma fold_load_record_lock:
  "fold load_record rl (dc\<lparr>cacheLock := l\<rparr>) = (fold load_record rl dc)\<lparr>cacheLock := l\<rparr>"
  by (induction rl arbitrary: dc) (simp_all add: load_record_lock)

text \<open>
  C3, amended. On a store whose lock is free, whose flag is not set and which has a
  handler, \<^verbatim>\<open>Iterate\<close> succeeds and calls the handler once for each entry of the map, with
  the payload of the record the entry points to; so does \<^verbatim>\<open>LoadAndIterate\<close> when the
  loader succeeds, on the map as it is after the load. The entries that point to a
  record are as many as the keys that map to it: a record is handled once for each of
  its keys in the map.
\<close>

theorem Iterate_calls_once_per_key:
  assumes "store_unlocked dc" and "\<not> singletonFlag dc" and "reciteratefn dc = Some h"
    and "distinct (map fst (cache dc))"
  shows
   "(\<exists>dc'. Iterate (Some dc) cacheName isIteratorProvided = (Returns (True, None), Some dc') \<and>
       calls dc' = calls dc @ map (\<lambda>(key, pRec). ArgPayload (PDataRec (recs dc ! pRec))) (cache dc)) \<and>
    (\<forall>a. length (filter (\<lambda>(key, pRec). pRec = a) (cache dc)) = card (keys_to dc a)) \<and>
    (\<forall>f recList. loadfn dc = Some f \<and> f () = (True, recList) \<longrightarrow>
       (\<exists>dc'. LoadAndIterate (Some dc) isLoaderProvided isIteratorProvided =
                (Returns (True, None), Some dc') \<and>
          cache dc' = cache (load_records recList dc) \<and>
          recs dc' = recs (load_records recList dc) \<and>
          calls dc' = calls dc @
            map (\<lambda>(key, pRec). ArgPayload (PDataRec (recs dc' ! pRec))) (cache dc') \<and>
          (\<forall>a. length (filter (\<lambda>(key, pRec). pRec = a) (cache dc')) = card (keys_to dc' a))))"
proof (intro conjI allI impI)
  have u: "(cacheLock dc)\<lparr>writer := False\<rparr> = cacheLock dc"
    using assms(1) by (simp add: store_unlocked_def)
  let ?dc' = "dc\<lparr>calls := calls dc @ map (\<lambda>(key, pRec). ArgPayload (PDataRec (recs dc ! pRec))) (cache dc),
                 singletonFlag := True\<rparr>"
  have "Iterate (Some dc) cacheName isIteratorProvided = (Returns (True, None), Some ?dc')"
    using assms u
    by (simp add: Iterate_def Iterate_body_def Iterate_deferred_def iterate_records_def
        cacheLock_Lock_def RWMutex_Lock_def store_unlocked_def deferred_def
        cacheLock_Unlock_def RWMutex_Unlock_def)
  then show "\<exists>dc'. Iterate (Some dc) cacheName isIteratorProvided = (Returns (True, None), Some dc') \<and>
       calls dc' = calls dc @ map (\<lambda>(key, pRec). ArgPayload (PDataRec (recs dc ! pRec))) (cache dc)"
    by (intro exI [of _ ?dc']) simp
next
  fix a
  show "length (filter (\<lambda>(key, pRec). pRec = a) (cache dc)) = card (keys_to dc a)"
    using entries_per_record [OF assms(4)] by (simp add: keys_to_eq)
next
  fix f recList
  assume h: "loadfn dc = Some f \<and> f () = (True, recList)"
  have u: "(cacheLock dc)\<lparr>writer := False\<rparr> = cacheLock dc"
    using assms(1) by (simp add: store_unlocked_def)
  let ?ld = "load_records recList dc"
  let ?dc' = "?ld\<lparr>calls := calls dc @ map (\<lambda>(key, pRec). ArgPayload (PDataRec (recs ?ld ! pRec))) (cache ?ld),
                 singletonFlag := True\<rparr>"
  have fr: "reciteratefn ?ld = Some h" "calls ?ld = calls dc" "cacheLock ?ld = cacheLock dc"
    using assms(3) by (simp_all add: load_records_def fold_load_record_frame)
  have lk: "load_records recList (dc\<lparr>cacheLock := l\<rparr>) = ?ld\<lparr>cacheLock := l\<rparr>" for l
    by (simp add: load_records_def fold_load_record_lock)
  have run: "LoadAndIterate (Some dc) isLoaderProvided isIteratorProvided =
                (Returns (True, None), Some ?dc')"
    using assms(1,2) h u fr
    by (simp add: LoadAndIterate_def LoadAndIterate_body_def Iterate_deferred_def
        iterate_records_def lk Let_def
        cacheLock_Lock_def RWMutex_Lock_def store_unlocked_def deferred_def
        cacheLock_Unlock_def RWMutex_Unlock_def)
  have d: "distinct (map fst (cache ?dc'))"
    using assms(4) by (simp add: load_records_def distinct_fold_load_record)
  show "\<exists>dc'. LoadAndIterate (Some dc) isLoaderProvided isIteratorProvided =
                (Returns (True, None), Some dc') \<and>
          cache dc' = cache (load_records recList dc) \<and>
          recs dc' = recs (load_records recList dc) \<and>
          calls dc' = calls dc @
            map (\<lambda>(key, pRec). ArgPayload (PDataRec (recs dc' ! pRec))) (cache dc') \<and>
          (\<forall>a. length (filter (\<lambda>(key, pRec). pRec = a) (cache dc')) = card (keys_to dc' a))"
    using run entries_per_record [OF d]
    by (intro exI [of _ ?dc']) (simp add: keys_to_eq)
qed

theorem Iterate_calls_once_per_key_witness:
  "store_unlocked (the ex_callbacks) \<and> \<not> singletonFlag (the ex_callbacks) \<and>
   reciteratefn (the ex_callbacks) = Some ex_handler \<and>
   distinct (map fst (cache (the ex_callbacks))) \<and>
   loadfn (the ex_callbacks) = Some ex_loader \<and>
   ex_loader () = (True, [\<lparr>Payload_KeyList = [KStr ''id1'', KStr ''name1''], Payload_PDataRec = Some 7\<rparr>]) \<and>
   fst (LoadAndIterate ex_callbacks True True) = Returns (True, None) \<and>
   cache (the (snd (LoadAndIterate ex_callbacks True True))) = [(KStr ''id1'', 0), (KStr ''name1'', 0)] \<and>
   calls (the (snd (LoadAndIterate ex_callbacks True True))) = [ArgPayload (Some 7), ArgPayload (Some 7)] \<and>
   card (keys_to (the (snd (LoadAndIterate ex_callbacks True True))) 0) = 2"
  using Iterate_calls_once_per_key [of "the ex_callbacks" ex_handler "''c''" True True]
  by (simp add: ex_callbacks_def ex_loader_def store_unlocked_def load_defs eval_defs keys_to_def)


section \<open>Steps that add no key and assign no counter\<close>

lemma narrows_refl: "narrows d d"
  by (simp add: narrows_def)

lemma set_delete_subset: "set (AList.delete k c) \<subseteq> set c"
  by (auto simp: AList.delete_eq)

lemma map_KeyList_touch:
  assumes "KeyList r = KeyList (xs ! a)"
  shows "map KeyList (xs[a := r]) = map KeyList xs"
proof (cases "a < length xs")
  case True
  then show ?thesis using assms by (simp add: map_update list_update_same_conv)
next
  case False
  then show ?thesis by (simp add: list_update_beyond)
qed

lemma narrows_cacheLock: "narrows d d1 \<Longrightarrow> narrows d (d1\<lparr>cacheLock := l\<rparr>)"
  and narrows_calls: "narrows d d1 \<Longrightarrow> narrows d (d1\<lparr>calls := cs\<rparr>)"
  and narrows_flag: "narrows d d1 \<Longrightarrow> narrows d (d1\<lparr>singletonFlag := b\<rparr>)"
  and narrows_delete: "narrows d d1 \<Longrightarrow> narrows d (d1\<lparr>cache := AList.delete k (cache d1)\<rparr>)"
  and narrows_isActive:
    "narrows d d1 \<Longrightarrow> narrows d (d1\<lparr>recs := (recs d1)[a := (recs d1 ! a)\<lparr>isActive := b\<rparr>]\<rparr>)"
  and narrows_pRecLock:
    "narrows d d1 \<Longrightarrow> narrows d (d1\<lparr>recs := (recs d1)[a := (recs d1 ! a)\<lparr>pRecLock := m\<rparr>]\<rparr>)"
  by (auto simp: narrows_def map_KeyList_touch dest: subsetD [OF set_delete_subset])

lemma narrows_and_then:
  assumes "narrows d (snd m)" and "\<And>x. narrows d (snd (f x (snd m)))"
  shows "narrows d (snd (and_then m f))"
proof -
  obtain r s where m: "m = (r, s)" by (cases m)
  show ?thesis using assms by (cases r) (simp_all add: m)
qed

lemma narrows_deferred:
  assumes "narrows d (snd res)" and "\<And>d1. narrows d d1 \<Longrightarrow> narrows d (snd (dfn d1))"
  shows "narrows d (snd (deferred dfn res))"
proof -
  obtain r s where m: "res = (r, s)" by (cases res)
  show ?thesis
    using assms by (cases r) (auto simp: m deferred_def intro!: narrows_and_then)
qed

lemma narrows_cacheLock_ops:
  assumes "narrows d d1"
  shows "narrows d (snd (cacheLock_Lock d1))" "narrows d (snd (cacheLock_Unlock d1))"
    "narrows d (snd (cacheLock_RLock d1))" "narrows d (snd (cacheLock_RUnlock d1))"
  using assms
  by (auto simp: cacheLock_Lock_def cacheLock_Unlock_def cacheLock_RLock_def cacheLock_RUnlock_def
      intro: narrows_cacheLock split: option.splits)

lemma narrows_pRecLock_ops:
  assumes "narrows d d1"
  shows "narrows d (snd (pRecLock_Lock a d1))" "narrows d (snd (pRecLock_Unlock a d1))"
  using assms
  by (auto simp: pRecLock_Lock_def pRecLock_Unlock_def intro: narrows_pRecLock split: option.splits)

lemma narrows_on_rec:
  assumes "narrows d d1"
  shows "narrows d (snd (on_rec RecLock a d1))" "narrows d (snd (on_rec RecUnlock a d1))"
  using assms
  by (auto simp: on_rec_def RecLock_def RecUnlock_def Let_def intro: narrows_pRecLock narrows_refl
      split: option.splits prod.splits if_splits)

lemma narrows_with_Lock:
  assumes "narrows d d1" and "\<And>d2. narrows d d2 \<Longrightarrow> narrows d (snd (body d2))"
  shows "narrows d (snd (with_Lock body d1))"
  unfolding with_Lock_def
  by (intro narrows_and_then narrows_deferred narrows_cacheLock_ops assms)

lemma narrows_with_RLock:
  assumes "narrows d d1" and "\<And>d2. narrows d d2 \<Longrightarrow> narrows d (snd (body d2))"
  shows "narrows d (snd (with_RLock body d1))"
  unfolding with_RLock_def
  by (intro narrows_and_then narrows_deferred narrows_cacheLock_ops assms)


lemma snd_status_of [simp]: "snd (status_of ok res) = snd res"
  by (cases res; cases "fst res") (auto simp: status_of_def)

lemma snd_case_Some [simp]: "snd (case p of (r, d) \<Rightarrow> (r, Some d)) = Some (snd p)"
  by (cases p) simp

lemmas narrows_steps = narrows_and_then narrows_deferred narrows_cacheLock_ops narrows_pRecLock_ops
  narrows_on_rec narrows_with_Lock narrows_with_RLock narrows_cacheLock narrows_calls narrows_flag
  narrows_delete narrows_isActive narrows_pRecLock

lemma narrows_get_locked: "narrows d d1 \<Longrightarrow> narrows d (snd (get_locked ks d1))"
  unfolding get_locked_def
  by (auto intro!: narrows_steps split: list.splits option.splits)

lemma narrows_UpdateRecState_body:
  "narrows d d1 \<Longrightarrow> narrows d (snd (UpdateRecStateWOLock_body k b d1))"
  unfolding UpdateRecStateWOLock_body_def
  by (auto intro!: narrows_steps split: option.splits)

lemma narrows_GetRec_body: "narrows d d1 \<Longrightarrow> narrows d (snd (GetRecWOLock_body k d1))"
  unfolding GetRecWOLock_body_def
  by (auto intro!: narrows_steps split: option.splits)

lemma narrows_GetDataRec_body: "narrows d d1 \<Longrightarrow> narrows d (snd (GetDataRecWOLock_body k d1))"
  unfolding GetDataRecWOLock_body_def Let_def
  by (auto intro!: narrows_steps split: option.splits)

lemma narrows_DoesKeyExist_body: "narrows d d1 \<Longrightarrow> narrows d (snd (DoesKeyExistWOLock_body k d1))"
  unfolding DoesKeyExistWOLock_body_def by auto

lemma narrows_Iterate_body: "narrows d d1 \<Longrightarrow> narrows d (snd (Iterate_body i d1))"
  unfolding Iterate_body_def iterate_records_def
  by (auto intro!: narrows_steps split: option.splits)

lemma narrows_DeleteCache_loop: "narrows d d1 \<Longrightarrow> narrows d (snd (DeleteCache_loop es d1))"
proof (induction es arbitrary: d1)
  case Nil
  then show ?case by simp
next
  case (Cons e es)
  obtain key prec where e: "e = (key, prec)" by (cases e)
  show ?case
  proof (cases "pRecLock (recs d1 ! prec) \<noteq> None")
    case False
    then show ?thesis
      using Cons.prems by (auto simp: e intro!: Cons.IH narrows_delete)
  next
    case True
    obtain r1 s1 where l: "pRecLock_Lock prec d1 = (r1, s1)" by (cases "pRecLock_Lock prec d1")
    have n1: "narrows d s1"
      using narrows_pRecLock_ops(1) [OF Cons.prems, of prec] by (simp add: l)
    let ?s1' = "s1\<lparr>cache := AList.delete key (cache s1)\<rparr>"
    obtain r2 s2 where u: "pRecLock_Unlock prec ?s1' = (r2, s2)"
      by (cases "pRecLock_Unlock prec ?s1'")
    have n2: "narrows d s2"
      using narrows_pRecLock_ops(2) [OF narrows_delete [OF n1], of prec key] by (simp add: u)
    show ?thesis
      using True n1 n2 Cons.IH [OF n2]
      by (cases r1; cases r2) (auto simp: e l u)
  qed
qed

lemma narrows_AuxIterate_loop: "narrows d d1 \<Longrightarrow> narrows d (snd (AuxIterate_loop es d1))"
proof (induction es arbitrary: d1)
  case Nil
  then show ?case by simp
next
  case (Cons e es)
  obtain key prec where e: "e = (key, prec)" by (cases e)
  obtain r1 s1 where l: "on_rec RecLock prec d1 = (r1, s1)" by (cases "on_rec RecLock prec d1")
  have n1: "narrows d s1"
    using narrows_on_rec(1) [OF Cons.prems, of prec] by (simp add: l)
  let ?s1' = "s1\<lparr>calls := calls s1 @ [ArgRec prec]\<rparr>"
  obtain r2 s2 where u: "on_rec RecUnlock prec ?s1' = (r2, s2)"
    by (cases "on_rec RecUnlock prec ?s1'")
  have n2: "narrows d s2"
    using narrows_on_rec(2) [OF narrows_calls [OF n1, of "calls s1 @ [ArgRec prec]"], of prec]
    by (simp add: u)
  show ?case
    using n1 n2 Cons.IH [OF n2]
    by (cases r1; cases r2) (auto simp: e l u)
qed

lemma exec_narrows:
  assumes "\<not> is_add c" and "\<not> is_readd c" and "\<not> is_DeleteRec c" and "\<not> sets_cnt c"
  shows "\<exists>dc'. snd (exec c (Some dc)) = Some dc' \<and> narrows dc dc'"
proof (cases c)
  case Call_ReadLock
  then show ?thesis
    by (auto simp: ReadLock_def intro!: narrows_steps narrows_refl)
next
  case Call_ReadUnlock
  then show ?thesis by (auto simp: ReadUnlock_def intro!: narrows_steps narrows_refl)
next
  case Call_WriteLock
  then show ?thesis by (auto simp: WriteLock_def intro!: narrows_steps narrows_refl)
next
  case Call_WriteUnlock
  then show ?thesis by (auto simp: WriteUnlock_def intro!: narrows_steps narrows_refl)
next
  case (Call_RecLock h)
  then show ?thesis
    using narrows_on_rec(1) [OF narrows_refl [of dc]]
    by (auto simp: on_handle_def RecLock_def intro: narrows_refl split: option.splits prod.splits)
next
  case (Call_RecUnlock h)
  then show ?thesis
    using narrows_on_rec(2) [OF narrows_refl [of dc]]
    by (auto simp: on_handle_def RecUnlock_def intro: narrows_refl split: option.splits prod.splits)
next
  case (Call_DeleteKey k)
  then show ?thesis by (auto simp: DeleteKey_def intro!: narrows_steps narrows_refl)
next
  case Call_DeleteCache
  then show ?thesis
    by (auto simp: DeleteCache_def intro!: narrows_steps narrows_DeleteCache_loop narrows_refl)
next
  case Call_DeleteCacheWOLock
  then show ?thesis
    by (auto simp: DeleteCacheWOLock_def DeleteCacheWOLock_body_def
        intro!: narrows_steps narrows_DeleteCache_loop narrows_refl)
next
  case (Call_UpdateRecState k b)
  then show ?thesis
    by (auto simp: UpdateRecState_def intro!: narrows_steps narrows_UpdateRecState_body narrows_refl)
next
  case (Call_UpdateRecStateWOLock k b)
  then show ?thesis
    by (auto simp: UpdateRecStateWOLock_def intro!: narrows_UpdateRecState_body narrows_refl)
next
  case (Call_GetRec k)
  then show ?thesis
    by (auto simp: GetRec_def intro!: narrows_steps narrows_GetRec_body narrows_refl)
next
  case (Call_GetRecWOLock k)
  then show ?thesis by (auto simp: GetRecWOLock_def intro!: narrows_GetRec_body narrows_refl)
next
  case (Call_GetDataRec k)
  then show ?thesis
    by (auto simp: GetDataRec_def intro!: narrows_steps narrows_GetDataRec_body narrows_refl)
next
  case (Call_GetDataRecWOLock k)
  then show ?thesis by (auto simp: GetDataRecWOLock_def intro!: narrows_GetDataRec_body narrows_refl)
next
  case (Call_DoesKeyExist k)
  then show ?thesis
    by (auto simp: DoesKeyExist_def intro!: narrows_steps narrows_DoesKeyExist_body narrows_refl)
next
  case (Call_DoesKeyExistWOLock k)
  then show ?thesis
    by (auto simp: DoesKeyExistWOLock_def intro!: narrows_DoesKeyExist_body narrows_refl)
next
  case Call_GetCnt
  then show ?thesis by (auto simp: GetCnt_def intro!: narrows_steps narrows_refl)
next
  case (Call_Iterate n i)
  then show ?thesis
    by (auto simp: Iterate_def Iterate_deferred_def
        intro!: narrows_steps narrows_Iterate_body narrows_refl)
next
  case (Call_AuxIterate n h)
  then show ?thesis
    by (auto simp: AuxIterate_def intro!: narrows_steps narrows_AuxIterate_loop narrows_refl)
qed (use assms in \<open>simp_all add: is_readd_def\<close>)


section \<open>The keys of the map are in the key lists\<close>

lemma closedD: "closed Q \<Longrightarrow> Q d \<Longrightarrow> narrows d d' \<Longrightarrow> Q d'"
  by (auto simp: closed_def)



lemma closed_cnt: "closed (\<lambda>d. cnt d = n)"
  by (simp add: closed_def narrows_def)

lemma Q_and_then:
  assumes "Q (snd m)" and "\<And>x. Q (snd (f x (snd m)))"
  shows "Q (snd (and_then m f))"
proof -
  obtain r s where m: "m = (r, s)" by (cases m)
  show ?thesis using assms by (cases r) (simp_all add: m)
qed

lemma Q_deferred:
  assumes "Q (snd res)" and "\<And>d1. Q d1 \<Longrightarrow> Q (snd (dfn d1))"
  shows "Q (snd (deferred dfn res))"
proof -
  obtain r s where m: "res = (r, s)" by (cases res)
  show ?thesis
    using assms by (cases r) (auto simp: m deferred_def intro!: Q_and_then [where Q = Q])
qed

lemma Q_cacheLock_ops:
  assumes "closed Q" and "Q d"
  shows "Q (snd (cacheLock_Lock d))" "Q (snd (cacheLock_Unlock d))"
  using assms narrows_cacheLock_ops [OF narrows_refl [of d]] by (auto dest: closedD)

lemma Q_with_Lock:
  assumes "closed Q" and "Q d" and "\<And>d1. Q d1 \<Longrightarrow> Q (snd (body d1))"
  shows "Q (snd (with_Lock body d))"
  unfolding with_Lock_def
  by (intro Q_and_then [where Q = Q] Q_deferred [where Q = Q] Q_cacheLock_ops [where Q = Q] assms)

lemma Q_get_locked: "closed Q \<Longrightarrow> Q d \<Longrightarrow> Q (snd (get_locked ks d))"
  using narrows_get_locked [OF narrows_refl [of d]] by (auto dest: closedD)




lemma alias_listed_cnt [simp]: "alias_listed (d\<lparr>cnt := n\<rparr>) = alias_listed d"
  by (simp add: alias_listed_def)


















lemma Q_ReAddRec_body:
  assumes "closed Q" and "\<And>d a k k0. Q d \<Longrightarrow> map_of (cache d) k0 = Some a \<Longrightarrow> Q (readd a k d)"
    and "Q d"
  shows "Q (snd (ReAddRecWOLock_body k k' d))" "Q (snd (ReAddAndGetRecWOLock_body k k' d))"
  using assms
  by (auto simp: ReAddRecWOLock_body_def ReAddAndGetRecWOLock_body_def Let_def
      intro!: Q_get_locked [where Q = Q] split: option.splits)














lemmas exec_defs = DeleteKey_def status_of_def





section \<open>The counter\<close>

lemma map_of_store_keys:
  "map_of (store_keys ks a c) k = (if k \<in> set ks then Some a else map_of c k)"
  unfolding store_keys_def
  by (induction ks arbitrary: c) (auto simp: update_conv')

lemma get_locked_fresh:
  "get_locked ks (add_record ks p d) =
     (if ks = [] then (Panics, add_record ks p d)
      else (Returns (cnt d + 1, Some (length (recs d)), None),
            (add_record ks p d)\<lparr>recs := recs d @ [(new_Rec ks p)\<lparr>pRecLock := Some (0 OR mutexLocked)\<rparr>]\<rparr>))"
  by (cases ks)
     (simp_all add: get_locked_def add_record_def map_of_store_keys pRecLock_Lock_def
       Mutex_Lock_def new_Rec_def mutexLocked_def)

lemma cnt_add_record: "cnt (add_record ks p d) = cnt d + 1"
  by (simp add: add_record_def)

lemma add_counts_AddRec_body:
  "add_counts (cnt d) (status_of (\<lambda>(n, e). e = None) (AddRecWOLock_body ks p f d))"
  by (simp add: add_counts_def status_of_def AddRecWOLock_body_def add_record_def Let_def
      split: option.splits)

lemma add_counts_ForceAddRec_body:
  "add_counts (cnt d) (status_of (\<lambda>(n, e). e = None) (ForceAddRecWOLock_body ks p d))"
  by (simp add: add_counts_def status_of_def ForceAddRecWOLock_body_def add_record_def Let_def)

lemma add_counts_AddAndGetRec_body:
  "add_counts (cnt d) (status_of (\<lambda>(n, r, e). e = None) (AddAndGetRecWOLock_body ks p f d))"
  by (simp add: add_counts_def status_of_def AddAndGetRecWOLock_body_def get_locked_fresh
      cnt_add_record split: option.splits)

lemma add_counts_ForceAddAndGetRec_body:
  "add_counts (cnt d) (status_of (\<lambda>(n, r, e). e = None) (ForceAddAndGetRecWOLock_body ks p d))"
  using get_locked_fresh [of ks p "d\<lparr>cache := displace ks (cache d)\<rparr>"]
  by (simp add: add_counts_def status_of_def ForceAddAndGetRecWOLock_body_def cnt_add_record)

lemma with_Lock_add_counts:
  assumes "\<And>d1. add_counts (cnt d1) (status_of ok (body d1))"
  shows "add_counts (cnt d) (status_of ok (with_Lock body d))"
proof (cases "RWMutex_Lock (cacheLock d)")
  case None
  then show ?thesis
    by (simp add: with_Lock_def cacheLock_Lock_def status_of_def add_counts_def)
next
  case (Some l)
  let ?d1 = "d\<lparr>cacheLock := l\<rparr>"
  obtain r s2 where b: "body ?d1 = (r, s2)" by (cases "body ?d1")
  have a: "add_counts (cnt d) (status_of ok (r, s2))"
    using assms [of ?d1] by (simp add: b)
  show ?thesis
    using a Some b
    by (cases r)
       (auto simp: with_Lock_def cacheLock_Lock_def cacheLock_Unlock_def deferred_def
         status_of_def add_counts_def split: option.splits)
qed

lemma status_of_deref:
  "status_of ok (deref body (Some d)) = (case status_of ok (body d) of (st, d') \<Rightarrow> (st, Some d'))"
  by (cases "body d"; cases "fst (body d)") (auto simp: status_of_def)

lemma add_counts_result:
  assumes "add_counts (cnt dc) (status_of ok (B dc))"
    and "(if P then (Failed, Some dc) else (case status_of ok (B dc) of (st, d') \<Rightarrow> (st, Some d')))
           = (st, s')"
    and "st \<noteq> Panicked"
  shows "\<exists>dc'. s' = Some dc' \<and> cnt dc' = cnt dc + (if st = Succeeded then 1 else 0)"
  using assms by (cases P) (auto simp: add_counts_def split: prod.splits)

lemma exec_add_shape:
  "exec (Call_AddRec ks p f) (Some dc) =
     (if p = None then (Failed, Some dc)
      else (case status_of (\<lambda>(n, e). e = None) (with_Lock (AddRecWOLock_body ks p f) dc) of
              (st, d') \<Rightarrow> (st, Some d')))"
  "exec (Call_ForceAddRec ks p) (Some dc) =
     (if p = None then (Failed, Some dc)
      else (case status_of (\<lambda>(n, e). e = None) (with_Lock (ForceAddRecWOLock_body ks p) dc) of
              (st, d') \<Rightarrow> (st, Some d')))"
  "exec (Call_AddAndGetRec ks p f) (Some dc) =
     (if p = None then (Failed, Some dc)
      else (case status_of (\<lambda>(n, r, e). e = None) (with_Lock (AddAndGetRecWOLock_body ks p f) dc) of
              (st, d') \<Rightarrow> (st, Some d')))"
  "exec (Call_ForceAddAndGetRec ks p) (Some dc) =
     (if p = None then (Failed, Some dc)
      else (case status_of (\<lambda>(n, r, e). e = None)
                  (with_Lock (ForceAddAndGetRecWOLock_body ks p) dc) of
              (st, d') \<Rightarrow> (st, Some d')))"
  "exec (Call_AddRecWOLock ks p f) (Some dc) =
     (if p = None then (Failed, Some dc)
      else (case status_of (\<lambda>(n, e). e = None) (AddRecWOLock_body ks p f dc) of
              (st, d') \<Rightarrow> (st, Some d')))"
  "exec (Call_ForceAddRecWOLock ks p) (Some dc) =
     (if p = None then (Failed, Some dc)
      else (case status_of (\<lambda>(n, e). e = None) (ForceAddRecWOLock_body ks p dc) of
              (st, d') \<Rightarrow> (st, Some d')))"
  "exec (Call_AddAndGetRecWOLock ks p f) (Some dc) =
     (if p = None then (Failed, Some dc)
      else (case status_of (\<lambda>(n, r, e). e = None) (AddAndGetRecWOLock_body ks p f dc) of
              (st, d') \<Rightarrow> (st, Some d')))"
  "exec (Call_ForceAddAndGetRecWOLock ks p) (Some dc) =
     (if p = None then (Failed, Some dc)
      else (case status_of (\<lambda>(n, r, e). e = None) (ForceAddAndGetRecWOLock_body ks p dc) of
              (st, d') \<Rightarrow> (st, Some d')))"
  by (simp_all add: AddRec_def ForceAddRec_def AddAndGetRec_def ForceAddAndGetRec_def
      AddRecWOLock_def ForceAddRecWOLock_def AddAndGetRecWOLock_def ForceAddAndGetRecWOLock_def
      status_of_deref del: deref.simps)
     (simp_all add: status_of_def)

lemma exec_add_cnt:
  assumes "is_add c" and "exec c (Some dc) = (st, s')" and "st \<noteq> Panicked"
  shows "\<exists>dc'. s' = Some dc' \<and> cnt dc' = cnt dc + (if st = Succeeded then 1 else 0)"
proof (cases c)
  case (Call_AddRec ks p f)
  have a: "add_counts (cnt dc) (status_of (\<lambda>(n, e). e = None) (with_Lock (AddRecWOLock_body ks p f) dc))"
    by (rule with_Lock_add_counts) (rule add_counts_AddRec_body)
  have e: "(if p = None then (Failed, Some dc)
      else (case status_of (\<lambda>(n, e). e = None) (with_Lock (AddRecWOLock_body ks p f) dc) of
              (st, d') \<Rightarrow> (st, Some d'))) = (st, s')"
    using assms(2) by (simp only: Call_AddRec exec_add_shape)
  show ?thesis
    by (rule add_counts_result [where B = "with_Lock (AddRecWOLock_body ks p f)" and ok = "\<lambda>(n, e). e = None", OF a e assms(3)])
next
  case (Call_ForceAddRec ks p)
  have a: "add_counts (cnt dc) (status_of (\<lambda>(n, e). e = None) (with_Lock (ForceAddRecWOLock_body ks p) dc))"
    by (rule with_Lock_add_counts) (rule add_counts_ForceAddRec_body)
  have e: "(if p = None then (Failed, Some dc)
      else (case status_of (\<lambda>(n, e). e = None) (with_Lock (ForceAddRecWOLock_body ks p) dc) of
              (st, d') \<Rightarrow> (st, Some d'))) = (st, s')"
    using assms(2) by (simp only: Call_ForceAddRec exec_add_shape)
  show ?thesis
    by (rule add_counts_result [where B = "with_Lock (ForceAddRecWOLock_body ks p)" and ok = "\<lambda>(n, e). e = None", OF a e assms(3)])
next
  case (Call_AddAndGetRec ks p f)
  have a: "add_counts (cnt dc) (status_of (\<lambda>(n, r, e). e = None) (with_Lock (AddAndGetRecWOLock_body ks p f) dc))"
    by (rule with_Lock_add_counts) (rule add_counts_AddAndGetRec_body)
  have e: "(if p = None then (Failed, Some dc)
      else (case status_of (\<lambda>(n, r, e). e = None) (with_Lock (AddAndGetRecWOLock_body ks p f) dc) of
              (st, d') \<Rightarrow> (st, Some d'))) = (st, s')"
    using assms(2) by (simp only: Call_AddAndGetRec exec_add_shape)
  show ?thesis
    by (rule add_counts_result [where B = "with_Lock (AddAndGetRecWOLock_body ks p f)" and ok = "\<lambda>(n, r, e). e = None", OF a e assms(3)])
next
  case (Call_ForceAddAndGetRec ks p)
  have a: "add_counts (cnt dc) (status_of (\<lambda>(n, r, e). e = None) (with_Lock (ForceAddAndGetRecWOLock_body ks p) dc))"
    by (rule with_Lock_add_counts) (rule add_counts_ForceAddAndGetRec_body)
  have e: "(if p = None then (Failed, Some dc)
      else (case status_of (\<lambda>(n, r, e). e = None) (with_Lock (ForceAddAndGetRecWOLock_body ks p) dc) of
              (st, d') \<Rightarrow> (st, Some d'))) = (st, s')"
    using assms(2) by (simp only: Call_ForceAddAndGetRec exec_add_shape)
  show ?thesis
    by (rule add_counts_result [where B = "with_Lock (ForceAddAndGetRecWOLock_body ks p)" and ok = "\<lambda>(n, r, e). e = None", OF a e assms(3)])
next
  case (Call_AddRecWOLock ks p f)
  have a: "add_counts (cnt dc) (status_of (\<lambda>(n, e). e = None) (AddRecWOLock_body ks p f dc))"
    by (rule add_counts_AddRec_body)
  have e: "(if p = None then (Failed, Some dc)
      else (case status_of (\<lambda>(n, e). e = None) (AddRecWOLock_body ks p f dc) of
              (st, d') \<Rightarrow> (st, Some d'))) = (st, s')"
    using assms(2) by (simp only: Call_AddRecWOLock exec_add_shape)
  show ?thesis
    by (rule add_counts_result [where B = "AddRecWOLock_body ks p f" and ok = "\<lambda>(n, e). e = None", OF a e assms(3)])
next
  case (Call_ForceAddRecWOLock ks p)
  have a: "add_counts (cnt dc) (status_of (\<lambda>(n, e). e = None) (ForceAddRecWOLock_body ks p dc))"
    by (rule add_counts_ForceAddRec_body)
  have e: "(if p = None then (Failed, Some dc)
      else (case status_of (\<lambda>(n, e). e = None) (ForceAddRecWOLock_body ks p dc) of
              (st, d') \<Rightarrow> (st, Some d'))) = (st, s')"
    using assms(2) by (simp only: Call_ForceAddRecWOLock exec_add_shape)
  show ?thesis
    by (rule add_counts_result [where B = "ForceAddRecWOLock_body ks p" and ok = "\<lambda>(n, e). e = None", OF a e assms(3)])
next
  case (Call_AddAndGetRecWOLock ks p f)
  have a: "add_counts (cnt dc) (status_of (\<lambda>(n, r, e). e = None) (AddAndGetRecWOLock_body ks p f dc))"
    by (rule add_counts_AddAndGetRec_body)
  have e: "(if p = None then (Failed, Some dc)
      else (case status_of (\<lambda>(n, r, e). e = None) (AddAndGetRecWOLock_body ks p f dc) of
              (st, d') \<Rightarrow> (st, Some d'))) = (st, s')"
    using assms(2) by (simp only: Call_AddAndGetRecWOLock exec_add_shape)
  show ?thesis
    by (rule add_counts_result [where B = "AddAndGetRecWOLock_body ks p f" and ok = "\<lambda>(n, r, e). e = None", OF a e assms(3)])
next
  case (Call_ForceAddAndGetRecWOLock ks p)
  have a: "add_counts (cnt dc) (status_of (\<lambda>(n, r, e). e = None) (ForceAddAndGetRecWOLock_body ks p dc))"
    by (rule add_counts_ForceAddAndGetRec_body)
  have e: "(if p = None then (Failed, Some dc)
      else (case status_of (\<lambda>(n, r, e). e = None) (ForceAddAndGetRecWOLock_body ks p dc) of
              (st, d') \<Rightarrow> (st, Some d'))) = (st, s')"
    using assms(2) by (simp only: Call_ForceAddAndGetRecWOLock exec_add_shape)
  show ?thesis
    by (rule add_counts_result [where B = "ForceAddAndGetRecWOLock_body ks p" and ok = "\<lambda>(n, r, e). e = None", OF a e assms(3)])
qed (use assms(1) in simp_all)


lemma cnt_readd: "cnt (readd a k d) = cnt d"
  by (simp add: readd_def)

lemma exec_readd_cnt:
  assumes "is_readd c"
  shows "\<exists>dc'. snd (exec c (Some dc)) = Some dc' \<and> cnt dc' = cnt dc"
proof -
  note rd = Q_ReAddRec_body [where Q = "\<lambda>d. cnt d = cnt dc", OF closed_cnt]
  note wl = Q_with_Lock [where Q = "\<lambda>d. cnt d = cnt dc", OF closed_cnt]
  show ?thesis
  proof (cases c)
    case (Call_ReAddRec k k')
    then show ?thesis by (auto simp: ReAddRec_def cnt_readd intro!: wl rd)
  next
    case (Call_ReAddAndGetRec k k')
    then show ?thesis by (auto simp: ReAddAndGetRec_def cnt_readd intro!: wl rd)
  next
    case (Call_ReAddRecWOLock k k')
    then show ?thesis by (auto simp: ReAddRecWOLock_def cnt_readd intro!: rd)
  next
    case (Call_ReAddAndGetRecWOLock k k')
    then show ?thesis by (auto simp: ReAddAndGetRecWOLock_def cnt_readd intro!: rd)
  qed (use assms in \<open>simp_all add: is_readd_def\<close>)
qed

lemma exec_DeleteRec_cnt:
  assumes "exec (Call_DeleteRec k) (Some dc) = (st, s')" and "st \<noteq> Panicked"
  shows "\<exists>dc'. s' = Some dc' \<and> cnt dc' = cnt dc - (if st = Succeeded then 1 else 0)"
  using assms
  by (auto simp: DeleteRec_def DeleteRec_locked_def cacheLock_Lock_def cacheLock_Unlock_def
      RWMutex_Lock_def RWMutex_Unlock_def pRecLock_Lock_def pRecLock_Unlock_def
      Mutex_Lock_def Mutex_Unlock_def status_of_def Let_def
      split: option.splits if_splits)

lemma exec_cnt:
  assumes "\<not> sets_cnt c" and "exec c (Some dc) = (st, s')" and "st \<noteq> Panicked"
  shows "\<exists>dc'. s' = Some dc' \<and>
     cnt dc' = cnt dc + (if is_add c \<and> st = Succeeded then 1 else 0)
                      - (if is_DeleteRec c \<and> st = Succeeded then 1 else 0)"
proof -
  consider "is_add c" | "is_readd c" | "is_DeleteRec c"
    | "\<not> is_add c" "\<not> is_readd c" "\<not> is_DeleteRec c"
    by blast
  then show ?thesis
  proof cases
    case 1
    then have "\<not> is_DeleteRec c" by (cases c) simp_all
    then show ?thesis using exec_add_cnt [OF 1 assms(2,3)] 1 by auto
  next
    case 2
    then have "\<not> is_DeleteRec c" "\<not> is_add c" by (cases c; simp add: is_readd_def)+
    then show ?thesis using exec_readd_cnt [OF 2, of dc] assms(2) by auto
  next
    case 3
    then obtain k where c: "c = Call_DeleteRec k" by (cases c) simp_all
    show ?thesis using exec_DeleteRec_cnt [of k dc st s'] assms(2,3) by (simp add: c)
  next
    case 4
    then show ?thesis
      using exec_narrows [OF 4(1,2,3) assms(1), of dc] assms(2) by (auto simp: narrows_def)
  qed
qed

lemma successes_Cons:
  "successes kind (c # cs) (st # sts) =
     (if kind c \<and> st = Succeeded then 1 else 0) + successes kind cs sts"
  by (simp add: successes_def)

lemma run_cnt:
  assumes "run cs (Some dc) = (sts, s)" and "\<forall>c\<in>set cs. \<not> sets_cnt c" and "Panicked \<notin> set sts"
  shows "\<exists>dc'. s = Some dc' \<and>
     cnt dc' = cnt dc + int (successes is_add cs sts) - int (successes is_DeleteRec cs sts)"
  using assms
proof (induction cs arbitrary: dc sts)
  case Nil
  then show ?case by (auto simp: successes_def)
next
  case (Cons c cs)
  obtain st s1 where e: "exec c (Some dc) = (st, s1)" by (cases "exec c (Some dc)")
  obtain sts' s2 where r: "run cs s1 = (sts', s2)" by (cases "run cs s1")
  have sts: "sts = st # sts'" and s: "s = s2"
    using Cons.prems(1) by (simp_all add: e r)
  have np: "st \<noteq> Panicked" "Panicked \<notin> set sts'"
    using Cons.prems(3) by (auto simp: sts)
  obtain dc1 where s1: "s1 = Some dc1"
    and c1: "cnt dc1 = cnt dc + (if is_add c \<and> st = Succeeded then 1 else 0)
                      - (if is_DeleteRec c \<and> st = Succeeded then 1 else 0)"
    using exec_cnt [OF _ e np(1)] Cons.prems(2) by auto
  have r': "run cs (Some dc1) = (sts', s)"
    using r s1 s by simp
  have "\<forall>c\<in>set cs. \<not> sets_cnt c"
    using Cons.prems(2) by simp
  from Cons.IH [OF r' this np(2)] obtain dc' where "s = Some dc'"
    and "cnt dc' = cnt dc1 + int (successes is_add cs sts') - int (successes is_DeleteRec cs sts')"
    by blast
  then show ?case
    using c1 by (auto simp: sts successes_Cons)
qed

text \<open>
  C8. Run any sequence of calls on a store made by \<^verbatim>\<open>Create\<close>, with no call of \<^verbatim>\<open>SetCnt\<close>,
  \<^verbatim>\<open>Load\<close>, \<^verbatim>\<open>LoadAndIterate\<close> or \<^verbatim>\<open>DeleteRecWOLock\<close> in it and no call that panicked.
  Then the counter is the number of adds (of the eight kinds) that succeeded minus the
  number of \<^verbatim>\<open>DeleteRec\<close> calls that succeeded, whatever the key lists of the adds.
\<close>

theorem cnt_is_adds_minus_deletes:
  assumes "run cs (Create loadFunc iteratorFunc) = (sts, s)"
    and "\<forall>c\<in>set cs. \<not> sets_cnt c" and "Panicked \<notin> set sts"
  shows "\<exists>dc. s = Some dc \<and>
     cnt dc = int (successes is_add cs sts) - int (successes is_DeleteRec cs sts)"
proof -
  have "run cs (Some (the (Create loadFunc iteratorFunc))) = (sts, s)"
    using assms(1) by (simp add: Create_def)
  from run_cnt [OF this assms(2,3)] show ?thesis
    by (simp add: Create_def)
qed

lemma ex_counted_run:
  "fst (run ex_counted (Create None None)) = [Succeeded, Failed, Succeeded, Succeeded, Succeeded]"
  "cnt (the (snd (run ex_counted (Create None None)))) = 1"
  by (simp_all add: ex_counted_def eval_defs exec_defs AddAndGetRec_def AddAndGetRecWOLock_body_def
      get_locked_def pRecLock_Lock_def pRecLock_Unlock_def Mutex_Lock_def Mutex_Unlock_def
      mutexLocked_def DeleteRec_def DeleteRec_locked_def delete_keys_def)

theorem cnt_is_adds_minus_deletes_witness:
  "list_all (\<lambda>c. \<not> sets_cnt c) ex_counted \<and>
   Panicked \<notin> set (fst (run ex_counted (Create None None))) \<and>
   successes is_add ex_counted (fst (run ex_counted (Create None None))) = 2 \<and>
   successes is_DeleteRec ex_counted (fst (run ex_counted (Create None None))) = 1 \<and>
   cnt (the (snd (run ex_counted (Create None None)))) = 1"
  using cnt_is_adds_minus_deletes [of ex_counted None None
      "fst (run ex_counted (Create None None))" "snd (run ex_counted (Create None None))"]
  by (simp add: ex_counted_run list_all_iff) (simp add: ex_counted_def successes_def)


end
